theory Spec2Isabelle
  imports Main "HOL-Library.Sublist"
begin

section \<open>Strings, numbers and dates as \<^verbatim>\<open>update_feed.py\<close> uses them\<close>

text \<open>
  A Python \<^verbatim>\<open>str\<close> is a sequence of Unicode code points, so it is modelled as a list of
  natural numbers. \<open>py\<close> turns an ASCII literal of the source into such a list.
\<close>

type_synonym pystr = "nat list"

definition py :: "string \<Rightarrow> pystr" where
  "py cs = map of_char cs"

text \<open>
  \<^verbatim>\<open>str.strip()\<close> without argument removes leading and trailing whitespace, where
  whitespace is what CPython's \<^verbatim>\<open>str.isspace\<close> accepts.
\<close>

definition isspace :: "nat \<Rightarrow> bool" where
  "isspace c \<longleftrightarrow>
     (9 \<le> c \<and> c \<le> 13) \<or> (28 \<le> c \<and> c \<le> 32) \<or> c = 133 \<or> c = 160 \<or> c = 5760 \<or>
     (8192 \<le> c \<and> c \<le> 8202) \<or> c = 8232 \<or> c = 8233 \<or> c = 8239 \<or> c = 8287 \<or> c = 12288"

definition strip :: "pystr \<Rightarrow> pystr" where
  "strip s = rev (dropWhile isspace (rev (dropWhile isspace s)))"

text \<open>\<^verbatim>\<open>str(n)\<close> for an integer: decimal digits, with a minus sign when negative.\<close>

fun str_nat :: "nat \<Rightarrow> pystr" where
  "str_nat n = (if n < 10 then [48 + n] else str_nat (n div 10) @ [48 + n mod 10])"

declare str_nat.simps [simp del]

definition str_int :: "int \<Rightarrow> pystr" where
  "str_int i = (if i < 0 then py ''-'' @ str_nat (nat (- i)) else str_nat (nat i))"

text \<open>The \<^verbatim>\<open>%02d\<close> and \<^verbatim>\<open>%04d\<close> conversions: zero padding on the left up to a width.\<close>

definition zero_pad :: "nat \<Rightarrow> nat \<Rightarrow> pystr" where
  "zero_pad width n = replicate (width - length (str_nat n)) 48 @ str_nat n"

text \<open>
  A naive \<^verbatim>\<open>datetime\<close>, as \<^verbatim>\<open>datetime(year, month, day)\<close> and
  \<^verbatim>\<open>datetime.utcnow()\<close> build it. Python only constructs valid dates
  (\<open>1 \<le> month \<le> 12\<close>, and so on).
\<close>

record datetime =
  year :: nat
  month :: nat
  day :: nat
  hour :: nat
  minute :: nat
  second :: nat

definition is_leap :: "nat \<Rightarrow> bool" where
  "is_leap y \<longleftrightarrow> y mod 4 = 0 \<and> (y mod 100 \<noteq> 0 \<or> y mod 400 = 0)"

definition days_before_year :: "nat \<Rightarrow> nat" where
  "days_before_year y = (y - 1) * 365 + (y - 1) div 4 - (y - 1) div 100 + (y - 1) div 400"

definition days_in_month :: "nat \<Rightarrow> nat \<Rightarrow> nat" where
  "days_in_month y m =
     (if m = 2 then (if is_leap y then 29 else 28)
      else if m = 4 \<or> m = 6 \<or> m = 9 \<or> m = 11 then 30 else 31)"

definition days_before_month :: "nat \<Rightarrow> nat \<Rightarrow> nat" where
  "days_before_month y m = sum_list (map (days_in_month y) [1 ..< m])"

definition toordinal :: "datetime \<Rightarrow> nat" where
  "toordinal d = days_before_year (year d) + days_before_month (year d) (month d) + day d"

definition weekday :: "datetime \<Rightarrow> nat" where
  "weekday d = (toordinal d + 6) mod 7"

definition day_names :: "pystr list" where
  "day_names = map py [''Mon'', ''Tue'', ''Wed'', ''Thu'', ''Fri'', ''Sat'', ''Sun'']"

definition month_names :: "pystr list" where
  "month_names = map py [''Jan'', ''Feb'', ''Mar'', ''Apr'', ''May'', ''Jun'',
                         ''Jul'', ''Aug'', ''Sep'', ''Oct'', ''Nov'', ''Dec'']"

text \<open>
  \<^verbatim>\<open>email.utils.format_datetime\<close> on a naive datetime: the RFC 2822 rendering
  \<^verbatim>\<open>'%s, %02d %s %04d %02d:%02d:%02d %s'\<close> with the zone \<^verbatim>\<open>-0000\<close>.
\<close>

definition format_datetime :: "datetime \<Rightarrow> pystr" where
  "format_datetime d =
     day_names ! weekday d @ py '', '' @ zero_pad 2 (day d) @ py '' '' @
     month_names ! (month d - 1) @ py '' '' @ zero_pad 4 (year d) @ py '' '' @
     zero_pad 2 (hour d) @ py '':'' @ zero_pad 2 (minute d) @ py '':'' @
     zero_pad 2 (second d) @ py '' -0000''"

section \<open>The element tree\<close>

text \<open>
  An \<^verbatim>\<open>xml.etree.ElementTree.Element\<close>: tag, attributes in insertion order, text and
  tail (each \<^verbatim>\<open>None\<close> or a string; the tail is the character data that follows the
  element's end tag) and children. The program never reads or sets a tail, but
  \<^verbatim>\<open>tree.write\<close> writes it like a text.
\<close>

datatype element =
  Element (tag: pystr) (attrib: "(pystr \<times> pystr) list") (etext: "pystr option")
          (etail: "pystr option") (children: "element list")

text \<open>\<^verbatim>\<open>e.find(t)\<close>: the first direct child with that tag, or \<^verbatim>\<open>None\<close>.\<close>

definition find_child :: "element \<Rightarrow> pystr \<Rightarrow> element option" where
  "find_child e t = List.find (\<lambda>c. tag c = t) (children e)"

text \<open>\<^verbatim>\<open>e.findall(t)\<close>: all direct children with that tag, in document order.\<close>

definition findall :: "element \<Rightarrow> pystr \<Rightarrow> element list" where
  "findall e t = filter (\<lambda>c. tag c = t) (children e)"

text \<open>
  \<^verbatim>\<open>ET.SubElement(channel, ...)\<close> mutates the object that \<^verbatim>\<open>root.find("channel")\<close>
  returned, that is the first child of the root with that tag; every other child is left
  as it is.
\<close>

fun append_to_first :: "pystr \<Rightarrow> element \<Rightarrow> element list \<Rightarrow> element list" where
  "append_to_first t new [] = []"
| "append_to_first t new (c # cs) =
     (if tag c = t
      then Element (tag c) (attrib c) (etext c) (etail c) (children c @ [new]) # cs
      else c # append_to_first t new cs)"

section \<open>Writing a tree and parsing it again\<close>

text \<open>
  \<^verbatim>\<open>tree.write\<close> serialises texts and tails with \<^verbatim>\<open>&\<close>, \<^verbatim>\<open><\<close> and \<^verbatim>\<open>>\<close> escaped and
  everything else as it is, and attribute values with \<^verbatim>\<open>"\<close>, carriage return, line feed
  and tab escaped as well. The parser behind \<^verbatim>\<open>ET.parse\<close> accepts the characters of
  XML 1.0 only: tab, line feed, carriage return, and the code points from U+0020 on
  without the surrogates, U+FFFE and U+FFFF. A surrogate is written as a character
  reference, which the parser refuses too.
\<close>

definition xml_char :: "nat \<Rightarrow> bool" where
  "xml_char c \<longleftrightarrow>
     c = 9 \<or> c = 10 \<or> c = 13 \<or> (32 \<le> c \<and> c \<le> 55295) \<or> (57344 \<le> c \<and> c \<le> 65533) \<or>
     (65536 \<le> c \<and> c \<le> 1114111)"

definition xml_str :: "pystr \<Rightarrow> bool" where
  "xml_str s \<longleftrightarrow> list_all xml_char s"

text \<open>
  In character data the parser turns every line end into a line feed: a carriage return
  followed by a line feed, and any other carriage return.
\<close>

fun eol_normalize :: "pystr \<Rightarrow> pystr" where
  "eol_normalize [] = []"
| "eol_normalize [c] = [if c = 13 then 10 else c]"
| "eol_normalize (c # d # cs) =
     (if c = 13
      then (if d = 10 then 10 # eol_normalize cs else 10 # eol_normalize (d # cs))
      else c # eol_normalize (d # cs))"

text \<open>
  A text or tail as it is read back: an empty string is written as nothing and read as
  \<^verbatim>\<open>None\<close>, any other string comes back with its line ends normalised.
\<close>

definition parsed_text :: "pystr option \<Rightarrow> pystr option" where
  "parsed_text x =
     (case x of
        None \<Rightarrow> None
      | Some t \<Rightarrow> if t = [] then None else Some (eol_normalize t))"

definition xml_text :: "pystr option \<Rightarrow> bool" where
  "xml_text x \<longleftrightarrow> (case x of None \<Rightarrow> True | Some t \<Rightarrow> xml_str t)"

text \<open>
  Whether the file that \<^verbatim>\<open>tree.write\<close> produces for a tree parses again: every text, tail
  and attribute value consists of XML characters. Tags and attribute names are those of a
  parsed file or the literals of \<^verbatim>\<open>add_item_to_feed\<close>, which are XML names, and are written
  and read back as they are (a tag \<^verbatim>\<open>{uri}name\<close> through a generated prefix). The root of
  a tree that \<^verbatim>\<open>ET.parse\<close> returned has no tail.
\<close>

fun well_formed_xml :: "element \<Rightarrow> bool" where
  "well_formed_xml (Element t a x y cs) \<longleftrightarrow>
     list_all (\<lambda>kv. xml_str (snd kv)) a \<and> xml_text x \<and> xml_text y
     \<and> list_all well_formed_xml cs"

text \<open>
  The tree that \<^verbatim>\<open>ET.parse\<close> returns for that file: attribute values come back exactly
  (their line ends were escaped), texts and tails as described.
\<close>

fun parsed_back :: "element \<Rightarrow> element" where
  "parsed_back (Element t a x y cs) =
     Element t a (parsed_text x) (parsed_text y) (map parsed_back cs)"

section \<open>Candidates, files and the outside world\<close>

text \<open>The dictionaries that \<^verbatim>\<open>discover_mp3_links\<close> builds, one per audio link.\<close>

record case_dict =
  docket :: pystr
  title :: pystr
  date :: datetime
  mp3_url :: pystr

text \<open>
  The exceptions the modelled functions can end with. The last two are the error kinds the
  specification names; the source defines and raises neither.
\<close>

datatype error =
    FileNotFoundError
  | ParseError
  | AttributeError
  | TypeError
  | PermissionError
  | OSError
  | RequestException
  | MalformedDocument
  | PersistenceError

text \<open>
  What a file that the program parses as XML holds: well-formed markup, given by the tree
  that \<^verbatim>\<open>ET.parse\<close> returns for it, or anything else, for which \<^verbatim>\<open>ET.parse\<close> raises
  \<^verbatim>\<open>ParseError\<close>.
\<close>

datatype doc = WellFormed element | NotWellFormed

text \<open>What a file holds after \<^verbatim>\<open>tree.write\<close> has written a tree into it without failure.\<close>

definition write_parse :: "element \<Rightarrow> doc" where
  "write_parse root =
     (if well_formed_xml root then WellFormed (parsed_back root) else NotWellFormed)"

text \<open>
  How the environment treats \<^verbatim>\<open>tree.write(path, ...)\<close>. \<^verbatim>\<open>ElementTree.write\<close> opens the
  path with mode \<^verbatim>\<open>"w"\<close>, which truncates the file, and only then serialises into it:
  when opening is refused nothing has been touched; when serialising or writing fails after
  that, the file keeps whatever prefix was written.
\<close>

datatype write_fault = NoFault | OpenFails | WriteFails

text \<open>
  The state the program runs against. Audio files are named \<^verbatim>\<open><docket>.mp3\<close> and are only
  tested for existence, measured and written; the feed is only parsed and rewritten. The
  two kinds of file are kept in two stores: \<open>docs\<close> for markup files by path and
  \<open>assets\<close> for the bytes of every other file by path (a feed path and an asset name
  never coincide in \<^verbatim>\<open>main\<close>, see \<open>local_filename_not_feed\<close>). \<open>remote\<close> is what a GET of a
  URL returns (\<open>None\<close>: the request or \<^verbatim>\<open>raise_for_status\<close> raises), \<open>gets\<close> logs the
  asset requests made, \<open>fault\<close> is how \<^verbatim>\<open>tree.write\<close> to a path behaves (writing an audio
  file is taken to succeed).
\<close>

record world =
  docs :: "pystr \<rightharpoonup> doc"
  assets :: "pystr \<rightharpoonup> nat list"
  remote :: "pystr \<rightharpoonup> nat list"
  gets :: "pystr list"
  fault :: "pystr \<Rightarrow> write_fault"

definition FEED_PATH :: pystr where
  "FEED_PATH = py ''feed.xml''"

definition PODCAST_BASE_URL :: pystr where
  "PODCAST_BASE_URL = py ''https://sneha-s2003.github.io/Federal-Circuit''"

definition os_path_exists :: "world \<Rightarrow> pystr \<Rightarrow> bool" where
  "os_path_exists w p \<longleftrightarrow> assets w p \<noteq> None"

definition os_path_getsize :: "world \<Rightarrow> pystr \<Rightarrow> error + int" where
  "os_path_getsize w p =
     (case assets w p of None \<Rightarrow> Inl FileNotFoundError | Some bs \<Rightarrow> Inr (int (length bs)))"

text \<open>\<^verbatim>\<open>ET.parse(feed_path)\<close> followed by \<^verbatim>\<open>tree.getroot()\<close>.\<close>

definition ET_parse :: "world \<Rightarrow> pystr \<Rightarrow> error + element" where
  "ET_parse w p =
     (case docs w p of
        None \<Rightarrow> Inl FileNotFoundError
      | Some NotWellFormed \<Rightarrow> Inl ParseError
      | Some (WellFormed root) \<Rightarrow> Inr root)"

text \<open>\<^verbatim>\<open>tree.write(feed_path, encoding="utf-8", xml_declaration=True)\<close>.\<close>

definition tree_write :: "world \<Rightarrow> pystr \<Rightarrow> element \<Rightarrow> (error + unit) \<times> world" where
  "tree_write w p root =
     (case fault w p of
        OpenFails \<Rightarrow> (Inl PermissionError, w)
      | WriteFails \<Rightarrow> (Inl OSError, w\<lparr>docs := (docs w)(p \<mapsto> NotWellFormed)\<rparr>)
      | NoFault \<Rightarrow> (Inr (), w\<lparr>docs := (docs w)(p \<mapsto> write_parse root)\<rparr>))"

section \<open>The functions of \<^verbatim>\<open>update_feed.py\<close>\<close>

subsection \<open>\<^verbatim>\<open>load_existing_guids\<close>\<close>

text \<open>
  The loop over \<^verbatim>\<open>channel.findall("item")\<close>: an item contributes the stripped text of its
  first \<^verbatim>\<open>guid\<close> child when that child exists and its text is neither \<^verbatim>\<open>None\<close> nor
  empty.
\<close>

fun guids_loop :: "element list \<Rightarrow> pystr set \<Rightarrow> pystr set" where
  "guids_loop [] guids = guids"
| "guids_loop (item # items) guids =
     (case find_child item (py ''guid'') of
        None \<Rightarrow> guids_loop items guids
      | Some guid_el \<Rightarrow>
          (case etext guid_el of
             None \<Rightarrow> guids_loop items guids
           | Some t \<Rightarrow>
               if t \<noteq> [] then guids_loop items (insert (strip t) guids)
               else guids_loop items guids))"

text \<open>
  \<^verbatim>\<open>root.find("channel")\<close> may be \<^verbatim>\<open>None\<close>; \<^verbatim>\<open>channel.findall\<close> then raises
  \<^verbatim>\<open>AttributeError\<close>. The function only reads, so it returns no new state.
\<close>

definition load_existing_guids :: "world \<Rightarrow> pystr \<Rightarrow> error + pystr set" where
  "load_existing_guids w feed_path =
     (case ET_parse w feed_path of
        Inl e \<Rightarrow> Inl e
      | Inr root \<Rightarrow>
          (case find_child root (py ''channel'') of
             None \<Rightarrow> Inl AttributeError
           | Some channel \<Rightarrow> Inr (guids_loop (findall channel (py ''item'')) {})))"

subsection \<open>\<^verbatim>\<open>download_mp3\<close>\<close>

definition download_mp3 :: "world \<Rightarrow> pystr \<Rightarrow> pystr \<Rightarrow> (error + int) \<times> world" where
  "download_mp3 w url out_path =
     (let w1 = w\<lparr>gets := gets w @ [url]\<rparr> in
      case remote w url of
        None \<Rightarrow> (Inl RequestException, w1)
      | Some body \<Rightarrow>
          (let w2 = w1\<lparr>assets := (assets w1)(out_path \<mapsto> body)\<rparr>
           in (os_path_getsize w2 out_path, w2)))"

subsection \<open>\<^verbatim>\<open>add_item_to_feed\<close>\<close>

text \<open>
  The \<^verbatim>\<open>item\<close> element and its six children, in the order the source creates them.
  \<^verbatim>\<open>ET.SubElement\<close> creates an element without text and without tail.
\<close>

definition new_item :: "case_dict \<Rightarrow> pystr \<Rightarrow> int \<Rightarrow> element" where
  "new_item c local_filename file_size =
     Element (py ''item'') [] None None
       [Element (py ''title'') []
          (Some (docket c @ [32, 8211, 32] @ title c)) None [],
        Element (py ''enclosure'')
          [(py ''url'', PODCAST_BASE_URL @ py ''/'' @ local_filename),
           (py ''length'', str_int file_size),
           (py ''type'', py ''audio/mpeg'')] None None [],
        Element (py ''guid'') [(py ''isPermaLink'', py ''false'')] (Some (docket c)) None [],
        Element (py ''pubDate'') [] (Some (format_datetime (date c))) None [],
        Element (py ''description'') []
          (Some (py ''Oral argument for docket '' @ docket c @ py '': '' @ title c @ py ''.''))
          None [],
        Element (py ''{http://www.itunes.com/dtds/podcast-1.0.dtd}explicit'') []
          (Some (py ''no'')) None []]"

text \<open>
  With no \<^verbatim>\<open>channel\<close> child, \<^verbatim>\<open>ET.SubElement(None, "item")\<close> raises \<^verbatim>\<open>TypeError\<close>.
  Otherwise the item is appended to the channel in memory and the whole tree is written
  back.
\<close>

definition add_item_to_feed ::
  "world \<Rightarrow> pystr \<Rightarrow> case_dict \<Rightarrow> pystr \<Rightarrow> int \<Rightarrow> (error + unit) \<times> world" where
  "add_item_to_feed w feed_path c local_filename file_size =
     (case ET_parse w feed_path of
        Inl e \<Rightarrow> (Inl e, w)
      | Inr root \<Rightarrow>
          (case find_child root (py ''channel'') of
             None \<Rightarrow> (Inl TypeError, w)
           | Some channel \<Rightarrow>
               tree_write w feed_path
                 (Element (tag root) (attrib root) (etext root) (etail root)
                    (append_to_first (py ''channel'')
                       (new_item c local_filename file_size) (children root)))))"

subsection \<open>\<^verbatim>\<open>main\<close>\<close>

text \<open>
  \<^verbatim>\<open>main\<close> is modelled from the point where \<^verbatim>\<open>discover_mp3_links()\<close> has returned its
  list \<open>cases\<close>; the \<^verbatim>\<open>print\<close> calls are left out.

  The list comprehension \<^verbatim>\<open>[c for c in cases if c["docket"] not in existing_guids]\<close>:
\<close>

definition new_cases :: "case_dict list \<Rightarrow> pystr set \<Rightarrow> case_dict list" where
  "new_cases cases existing_guids = filter (\<lambda>c. docket c \<notin> existing_guids) cases"

text \<open>The first half of the loop body: download unless the local file exists.\<close>

definition obtain_size :: "world \<Rightarrow> case_dict \<Rightarrow> (error + int) \<times> world" where
  "obtain_size w c =
     (let local_filename = docket c @ py ''.mp3'' in
      if \<not> os_path_exists w local_filename
      then download_mp3 w (mp3_url c) local_filename
      else (os_path_getsize w local_filename, w))"

text \<open>The body of \<^verbatim>\<open>for case in new_cases\<close>.\<close>

definition process_case :: "world \<Rightarrow> case_dict \<Rightarrow> (error + unit) \<times> world" where
  "process_case w c =
     (case obtain_size w c of
        (Inl e, w1) \<Rightarrow> (Inl e, w1)
      | (Inr sz, w1) \<Rightarrow> add_item_to_feed w1 FEED_PATH c (docket c @ py ''.mp3'') sz)"

text \<open>The loop itself: an exception ends it with the state as it then is.\<close>

fun main_loop :: "world \<Rightarrow> case_dict list \<Rightarrow> (error + unit) \<times> world" where
  "main_loop w [] = (Inr (), w)"
| "main_loop w (c # cs) =
     (case process_case w c of
        (Inl e, w1) \<Rightarrow> (Inl e, w1)
      | (Inr u, w1) \<Rightarrow> main_loop w1 cs)"

definition main :: "world \<Rightarrow> case_dict list \<Rightarrow> (error + unit) \<times> world" where
  "main w cases =
     (case load_existing_guids w FEED_PATH of
        Inl e \<Rightarrow> (Inl e, w)
      | Inr existing_guids \<Rightarrow>
          (let todo = new_cases cases existing_guids in
           if todo = [] then (Inr (), w) else main_loop w todo))"

section \<open>Observations on a feed document\<close>

text \<open>The entry nodes of a document: the \<^verbatim>\<open>item\<close> children of its channel.\<close>

definition entries :: "element \<Rightarrow> element list" where
  "entries root =
     (case find_child root (py ''channel'') of
        None \<Rightarrow> []
      | Some channel \<Rightarrow> findall channel (py ''item''))"

text \<open>
  The identifier an entry carries: the text of its first \<^verbatim>\<open>guid\<close> child, if there is one
  with a non-empty text.
\<close>

definition guid_text :: "element \<Rightarrow> pystr option" where
  "guid_text item =
     (case find_child item (py ''guid'') of
        None \<Rightarrow> None
      | Some guid_el \<Rightarrow>
          (case etext guid_el of
             None \<Rightarrow> None
           | Some t \<Rightarrow> if t = [] then None else Some t))"

definition entry_ids :: "element \<Rightarrow> pystr list" where
  "entry_ids root = List.map_filter guid_text (entries root)"

text \<open>The feed document at \<^verbatim>\<open>FEED_PATH\<close>, when it is there and parses.\<close>

definition feed_of :: "world \<Rightarrow> element option" where
  "feed_of w = (case docs w FEED_PATH of Some (WellFormed root) \<Rightarrow> Some root | _ \<Rightarrow> None)"

text \<open>
  The same document with one more entry: what \<^verbatim>\<open>add_item_to_feed\<close> writes back.
\<close>

definition with_item :: "element \<Rightarrow> element \<Rightarrow> element" where
  "with_item root new =
     Element (tag root) (attrib root) (etext root) (etail root)
       (append_to_first (py ''channel'') new (children root))"

text \<open>
  The identifiers of the feed at \<^verbatim>\<open>FEED_PATH\<close>, in document order.
\<close>

definition feed_ids :: "world \<Rightarrow> pystr list option" where
  "feed_ids w = map_option entry_ids (feed_of w)"

text \<open>
  Reading a child of an entry: the text of the first child with a tag, and an attribute
  of the \<^verbatim>\<open>enclosure\<close> child.
\<close>

definition child_text :: "element \<Rightarrow> pystr \<Rightarrow> pystr option" where
  "child_text item t = (case find_child item t of None \<Rightarrow> None | Some e \<Rightarrow> etext e)"


text \<open>
  The text of a child of the channel of the feed at \<^verbatim>\<open>FEED_PATH\<close>, such as its
  \<^verbatim>\<open>description\<close>.
\<close>

definition feed_channel_text :: "world \<Rightarrow> pystr \<Rightarrow> pystr option" where
  "feed_channel_text w t =
     (case feed_of w of
        None \<Rightarrow> None
      | Some root \<Rightarrow>
          (case find_child root (py ''channel'') of
             None \<Rightarrow> None
           | Some channel \<Rightarrow> child_text channel t))"

section \<open>Runs that meet no failure\<close>

text \<open>
  A candidate can be processed when its audio file is already there or its URL can be
  fetched. Its entry can be written and parsed again when what goes into it consists of
  XML characters. A run can proceed when the feed parses, has a channel, can be written
  and parsed again, and every candidate can be processed and written.
\<close>

definition fetchable :: "world \<Rightarrow> case_dict \<Rightarrow> bool" where
  "fetchable w c \<longleftrightarrow>
     os_path_exists w (docket c @ py ''.mp3'') \<or> remote w (mp3_url c) \<noteq> None"

definition case_xml :: "case_dict \<Rightarrow> bool" where
  "case_xml c \<longleftrightarrow>
     xml_str (docket c) \<and> xml_str (title c) \<and> xml_str (format_datetime (date c))"

definition runnable :: "world \<Rightarrow> case_dict list \<Rightarrow> bool" where
  "runnable w cases \<longleftrightarrow>
     (case feed_of w of None \<Rightarrow> False
      | Some root \<Rightarrow> find_child root (py ''channel'') \<noteq> None \<and> well_formed_xml root)
     \<and> fault w FEED_PATH = NoFault
     \<and> list_all (fetchable w) cases
     \<and> list_all case_xml cases"

section \<open>Example data\<close>

text \<open>
  A feed with one entry \<^verbatim>\<open>2024-1001\<close>, the candidate \<^verbatim>\<open>2024-1002\<close> of 1 March 2024,
  and candidates whose links carried no docket number, so that the identifier is the file
  name of the link: with a leading blank (\<^verbatim>\<open>href=" a.mp3"\<close>), with a carriage return
  (\<^verbatim>\<open>href="a&#13;b.mp3"\<close>), with a line feed and with a form feed in it.
\<close>

definition ex_date :: datetime where
  "ex_date = \<lparr>year = 2024, month = 3, day = 1, hour = 0, minute = 0, second = 0\<rparr>"

definition ex_item :: element where
  "ex_item = Element (py ''item'') [] None None
     [Element (py ''guid'') [(py ''isPermaLink'', py ''false'')] (Some (py ''2024-1001''))
        None []]"

definition ex_channel :: element where
  "ex_channel = Element (py ''channel'') [] None None
     [Element (py ''title'') [] (Some (py ''Feed'')) None [], ex_item]"

definition ex_root :: element where
  "ex_root = Element (py ''rss'') [(py ''version'', py ''2.0'')] None None [ex_channel]"

definition ex_old :: case_dict where
  "ex_old = \<lparr>docket = py ''2024-1001'', title = py ''Doe v. Roe'', date = ex_date,
              mp3_url = py ''https://x/b.mp3''\<rparr>"

definition ex_new :: case_dict where
  "ex_new = \<lparr>docket = py ''2024-1002'', title = py ''Smith v. Jones'', date = ex_date,
              mp3_url = py ''https://x/a.mp3''\<rparr>"

definition ws_case :: case_dict where
  "ws_case = \<lparr>docket = py '' a.mp3'', title = py ''Audio'', date = ex_date,
               mp3_url = py ''https://x/ a.mp3''\<rparr>"

definition cr_case :: case_dict where
  "cr_case = \<lparr>docket = [97, 13, 98, 46, 109, 112, 51], title = py ''Audio'', date = ex_date,
               mp3_url = py ''https://x/c.mp3''\<rparr>"

definition lf_case :: case_dict where
  "lf_case = \<lparr>docket = [97, 10, 98, 46, 109, 112, 51], title = py ''Audio'', date = ex_date,
               mp3_url = py ''https://x/d.mp3''\<rparr>"

definition ff_case :: case_dict where
  "ff_case = \<lparr>docket = [97, 12, 98, 46, 109, 112, 51], title = py ''Audio'', date = ex_date,
               mp3_url = py ''https://x/e.mp3''\<rparr>"

definition ex_world :: world where
  "ex_world = \<lparr>docs = [FEED_PATH \<mapsto> WellFormed ex_root], assets = Map.empty,
                remote = [py ''https://x/a.mp3'' \<mapsto> [73, 68, 51],
                          py ''https://x/b.mp3'' \<mapsto> [73, 68, 51, 4],
                          py ''https://x/c.mp3'' \<mapsto> [73],
                          py ''https://x/d.mp3'' \<mapsto> [73],
                          py ''https://x/e.mp3'' \<mapsto> [73],
                          py ''https://x/ a.mp3'' \<mapsto> [73, 68]],
                gets = [], fault = (\<lambda>p. NoFault)\<rparr>"

text \<open>
  A feed whose entries are: one with a guid surrounded by blanks, one without guid, one
  with an empty guid text, one with a guid without text.
\<close>

definition ws_channel :: element where
  "ws_channel = Element (py ''channel'') [] None None
        [Element (py ''title'') [] (Some (py ''Feed'')) None [],
         Element (py ''item'') [] None None
           [Element (py ''guid'') [] (Some (py ''  2024-1002 '')) None []],
         Element (py ''item'') [] None None
           [Element (py ''title'') [] (Some (py ''no guid'')) None []],
         Element (py ''item'') [] None None [Element (py ''guid'') [] (Some []) None []],
         Element (py ''item'') [] None None [Element (py ''guid'') [] None None []]]"

definition ws_root :: element where
  "ws_root = Element (py ''rss'') [] None None [ws_channel]"

definition ws_world :: world where
  "ws_world = ex_world\<lparr>docs := [FEED_PATH \<mapsto> WellFormed ws_root]\<rparr>"

text \<open>
  A feed with the guids \<^verbatim>\<open>" a.mp3"\<close> and \<^verbatim>\<open>"   "\<close>, and a feed with the guid
  \<^verbatim>\<open>"a.mp3"\<close>.
\<close>

definition blank_root :: element where
  "blank_root = Element (py ''rss'') [] None None
     [Element (py ''channel'') [] None None
        [Element (py ''item'') [] None None
           [Element (py ''guid'') [] (Some (py '' a.mp3'')) None []],
         Element (py ''item'') [] None None
           [Element (py ''guid'') [] (Some (py ''   '')) None []]]]"

definition blank_world :: world where
  "blank_world = ex_world\<lparr>docs := [FEED_PATH \<mapsto> WellFormed blank_root]\<rparr>"

definition plain_root :: element where
  "plain_root = Element (py ''rss'') [] None None
     [Element (py ''channel'') [] None None
        [Element (py ''item'') [] None None
           [Element (py ''guid'') [] (Some (py ''a.mp3'')) None []]]]"

definition plain_world :: world where
  "plain_world = ex_world\<lparr>docs := [FEED_PATH \<mapsto> WellFormed plain_root]\<rparr>"

text \<open>
  A feed as \<^verbatim>\<open>ET.parse\<close> returns it for a file that holds
  \<^verbatim>\<open><description>line1&#13;\<close>, a line end, \<^verbatim>\<open>line2</description>\<close> and
  \<^verbatim>\<open><guid>a&#13;b.mp3</guid>\<close>: the character references give carriage returns in the
  texts.
\<close>

definition cr_root :: element where
  "cr_root = Element (py ''rss'') [] None None
     [Element (py ''channel'') [] None None
        [Element (py ''description'') []
           (Some [108, 105, 110, 101, 49, 13, 10, 108, 105, 110, 101, 50]) None [],
         Element (py ''item'') [] None None
           [Element (py ''guid'') [] (Some [97, 13, 98, 46, 109, 112, 51]) None []]]]"

definition cr_world :: world where
  "cr_world = ex_world\<lparr>docs := [FEED_PATH \<mapsto> WellFormed cr_root]\<rparr>"

text \<open>
  The example world where writing fails after the file was opened, where the feed file is
  missing, and where the audio file of \<^verbatim>\<open>2024-1002\<close> is already on disk and nothing can
  be fetched.
\<close>

definition write_fails_world :: world where
  "write_fails_world = ex_world\<lparr>fault := (\<lambda>p. WriteFails)\<rparr>"

definition no_feed_world :: world where
  "no_feed_world = ex_world\<lparr>docs := Map.empty\<rparr>"


section \<open>Line ends and whitespace\<close>

lemma eol_normalize_Cons:
  "c \<noteq> 13 \<Longrightarrow> eol_normalize (c # cs) = c # eol_normalize cs"
  by (cases cs) simp_all

lemma eol_normalize_Nil_iff: "eol_normalize t = [] \<longleftrightarrow> t = []"
  by (induction t rule: eol_normalize.induct) simp_all

lemma eol_normalize_id: "13 \<notin> set t \<Longrightarrow> eol_normalize t = t"
  by (induction t rule: eol_normalize.induct) simp_all

lemma eol_normalize_no_cr: "13 \<notin> set (eol_normalize t)"
  by (induction t rule: eol_normalize.induct) simp_all

lemma eol_normalize_idem: "eol_normalize (eol_normalize t) = eol_normalize t"
  by (simp add: eol_normalize_id eol_normalize_no_cr)

lemma xml_str_eol_normalize: "xml_str t \<Longrightarrow> xml_str (eol_normalize t)"
  by (induction t rule: eol_normalize.induct) (auto simp: xml_str_def xml_char_def)

lemma isspace_eol: "isspace 13" "isspace 10"
  by (simp_all add: isspace_def)

lemma dropWhile_eol_normalize:
  "dropWhile isspace (eol_normalize s) = eol_normalize (dropWhile isspace s)"
  by (induction s rule: eol_normalize.induct) (simp_all add: isspace_eol)

lemma all_space_eol_normalize:
  "(\<forall>x\<in>set (eol_normalize s). isspace x) \<longleftrightarrow> (\<forall>x\<in>set s. isspace x)"
  by (induction s rule: eol_normalize.induct) (auto simp: isspace_eol)

lemma rstrip_Cons:
  "rev (dropWhile P (rev (c # s)))
     = (if \<forall>x\<in>set (c # s). P x then [] else c # rev (dropWhile P (rev s)))"
  by (auto simp: dropWhile_append)

lemma rstrip_eol_normalize:
  "rev (dropWhile isspace (rev (eol_normalize s)))
     = eol_normalize (rev (dropWhile isspace (rev s)))"
proof (induction s rule: eol_normalize.induct)
  case 1
  show ?case by simp
next
  case (2 c)
  show ?case by (simp add: isspace_eol)
next
  case (3 c d cs)
  show ?case
  proof (cases "c = 13")
    case False
    with 3 show ?thesis
      unfolding rstrip_Cons[of _ c "d # cs"] eol_normalize_Cons[OF False]
                rstrip_Cons[of _ c "eol_normalize (d # cs)"]
      using all_space_eol_normalize[of "d # cs"]
      by (simp add: eol_normalize_Cons)
  next
    case True
    show ?thesis
    proof (cases "d = 10")
      case d: True
      have "rev (dropWhile isspace (rev (eol_normalize (c # d # cs))))
              = rev (dropWhile isspace (rev (10 # eol_normalize cs)))"
        using True d by simp
      also have "\<dots> = (if \<forall>x\<in>set cs. isspace x then []
                         else 10 # eol_normalize (rev (dropWhile isspace (rev cs))))"
        unfolding rstrip_Cons using 3(1)[OF True d] all_space_eol_normalize[of cs]
        by (simp add: isspace_eol)
      also have "\<dots> = eol_normalize (rev (dropWhile isspace (rev (c # d # cs))))"
        unfolding rstrip_Cons[of _ c] rstrip_Cons[of _ d] using True d
        by (simp add: isspace_eol)
      finally show ?thesis .
    next
      case d: False
      have "rev (dropWhile isspace (rev (eol_normalize (c # d # cs))))
              = rev (dropWhile isspace (rev (10 # eol_normalize (d # cs))))"
        using True d by simp
      also have "\<dots> = (if \<forall>x\<in>set (d # cs). isspace x then []
                         else 10 # eol_normalize (rev (dropWhile isspace (rev (d # cs)))))"
        unfolding rstrip_Cons[of _ 10] using 3(2)[OF True d] all_space_eol_normalize[of "d # cs"]
        by (simp add: isspace_eol)
      also have "\<dots> = eol_normalize (rev (dropWhile isspace (rev (c # d # cs))))"
        unfolding rstrip_Cons[of _ c] rstrip_Cons[of _ d] using True d
        by (simp add: isspace_eol)
      finally show ?thesis .
    qed
  qed
qed

lemma strip_eol_normalize: "strip (eol_normalize t) = eol_normalize (strip t)"
  by (simp add: strip_def dropWhile_eol_normalize rstrip_eol_normalize)

lemma dropWhile_fix: "xs = [] \<or> \<not> P (hd xs) \<Longrightarrow> dropWhile P xs = xs"
  by (cases xs) auto

lemma strip_idem: "strip (strip t) = strip t"
proof -
  let ?ys = "dropWhile isspace t"
  let ?rs = "dropWhile isspace (rev ?ys)"
  have a: "dropWhile isspace (rev ?rs) = rev ?rs"
  proof (cases "?rs = []")
    case True
    show ?thesis unfolding True by simp
  next
    case False
    have ne: "?ys \<noteq> []"
    proof
      assume e: "?ys = []"
      have "?rs = []" unfolding e by simp
      with False show False ..
    qed
    have "\<exists>pre. rev ?ys = pre @ ?rs"
      by (metis takeWhile_dropWhile_id)
    then obtain pre where "rev ?ys = pre @ ?rs" by blast
    then have "?ys = rev ?rs @ rev pre" by (metis rev_append rev_rev_ident)
    with False have "hd (rev ?rs) = hd ?ys" by (metis hd_append2 rev_is_Nil_conv)
    moreover from ne have "\<not> isspace (hd ?ys)" by (rule hd_dropWhile)
    ultimately show ?thesis by (simp add: dropWhile_fix)
  qed
  have b: "dropWhile isspace (rev (rev ?rs)) = ?rs"
    by (simp add: dropWhile_fix hd_dropWhile)
  show ?thesis unfolding strip_def a b ..
qed

section \<open>A tree read back\<close>

lemma tag_parsed_back [simp]: "tag (parsed_back e) = tag e"
  by (cases e) simp

lemma attrib_parsed_back [simp]: "attrib (parsed_back e) = attrib e"
  by (cases e) simp

lemma etext_parsed_back [simp]: "etext (parsed_back e) = parsed_text (etext e)"
  by (cases e) simp

lemma etail_parsed_back [simp]: "etail (parsed_back e) = parsed_text (etail e)"
  by (cases e) simp

lemma children_parsed_back [simp]: "children (parsed_back e) = map parsed_back (children e)"
  by (cases e) simp

lemma well_formed_xml_iff:
  "well_formed_xml e \<longleftrightarrow>
     list_all (\<lambda>kv. xml_str (snd kv)) (attrib e) \<and> xml_text (etext e) \<and> xml_text (etail e)
     \<and> list_all well_formed_xml (children e)"
  by (cases e) simp

lemma parsed_text_idem: "parsed_text (parsed_text x) = parsed_text x"
  by (simp add: parsed_text_def eol_normalize_Nil_iff eol_normalize_idem split: option.splits)

lemma xml_text_parsed_text: "xml_text x \<Longrightarrow> xml_text (parsed_text x)"
  by (simp add: parsed_text_def xml_text_def xml_str_eol_normalize split: option.splits)

lemma parsed_back_idem: "parsed_back (parsed_back e) = parsed_back e"
  by (induction e) (simp add: parsed_text_idem)

lemma well_formed_parsed_back: "well_formed_xml e \<Longrightarrow> well_formed_xml (parsed_back e)"
  by (induction e) (simp add: xml_text_parsed_text list_all_iff)

lemma find_map_tag:
  "List.find (\<lambda>c. tag c = t) (map parsed_back cs)
     = map_option parsed_back (List.find (\<lambda>c. tag c = t) cs)"
  by (induction cs) simp_all

lemma find_child_parsed_back:
  "find_child (parsed_back e) t = map_option parsed_back (find_child e t)"
  by (simp add: find_child_def find_map_tag)

lemma findall_parsed_back: "findall (parsed_back e) t = map parsed_back (findall e t)"
  by (simp add: findall_def filter_map comp_def)

lemma entries_parsed_back: "entries (parsed_back root) = map parsed_back (entries root)"
  by (simp add: entries_def find_child_parsed_back findall_parsed_back split: option.splits)

lemma guid_text_parsed_back:
  "guid_text (parsed_back item) = map_option eol_normalize (guid_text item)"
  by (simp add: guid_text_def find_child_parsed_back parsed_text_def eol_normalize_Nil_iff
           split: option.splits)

lemma map_filter_map_option:
  "List.map_filter (\<lambda>x. map_option g (f x)) xs = map g (List.map_filter f xs)"
  by (induction xs) (simp_all add: List.map_filter_simps split: option.splits)

lemma entry_ids_parsed_back:
  "entry_ids (parsed_back root) = map eol_normalize (entry_ids root)"
proof -
  have "List.map_filter guid_text (map parsed_back xs)
          = map eol_normalize (List.map_filter guid_text xs)" for xs
    by (induction xs)
       (simp_all add: List.map_filter_simps guid_text_parsed_back split: option.splits)
  then show ?thesis by (simp add: entry_ids_def entries_parsed_back)
qed

section \<open>Reading the feed\<close>

lemma guids_loop_eq:
  "guids_loop items G = G \<union> strip ` set (List.map_filter guid_text items)"
proof (induction items arbitrary: G)
  case Nil
  show ?case by (simp add: List.map_filter_simps)
next
  case (Cons item items)
  show ?case
    by (auto simp: Cons.IH guid_text_def List.map_filter_simps split: option.splits)
qed

lemma load_existing_guids_Inr:
  assumes "docs w p = Some (WellFormed root)"
      and "find_child root (py ''channel'') = Some ch"
  shows "load_existing_guids w p = Inr (strip ` set (entry_ids root))"
  using assms
  by (simp add: load_existing_guids_def ET_parse_def guids_loop_eq entry_ids_def entries_def)

lemma set_map_filter_eq:
  "set (List.map_filter f xs) = {y. \<exists>x\<in>set xs. f x = Some y}"
  by (induction xs) (auto split: option.splits)

lemma map_filter_guid_text_set:
  "set (List.map_filter guid_text items)
     = {t. \<exists>item guid_el. item \<in> set items
            \<and> find_child item (py ''guid'') = Some guid_el
            \<and> etext guid_el = Some t \<and> t \<noteq> []}"
proof -
  have "guid_text item = Some t \<longleftrightarrow>
          (\<exists>guid_el. find_child item (py ''guid'') = Some guid_el
             \<and> etext guid_el = Some t \<and> t \<noteq> [])" for item t
    by (auto simp: guid_text_def split: option.splits if_splits)
  then show ?thesis
    unfolding set_map_filter_eq by blast
qed

section \<open>Appending an entry\<close>

lemma find_append_to_first:
  "List.find (\<lambda>c. tag c = t) cs = Some ch \<Longrightarrow>
   List.find (\<lambda>c. tag c = t) (append_to_first t new cs)
     = Some (Element (tag ch) (attrib ch) (etext ch) (etail ch) (children ch @ [new]))"
  by (induction cs) (auto split: if_splits)

lemma find_split:
  "List.find P xs = Some x \<Longrightarrow>
     \<exists>pre post. xs = pre @ x # post \<and> (\<forall>y\<in>set pre. \<not> P y) \<and> P x"
proof (induction xs)
  case Nil
  then show ?case by simp
next
  case (Cons a xs)
  show ?case
  proof (cases "P a")
    case True
    with Cons.prems have "a = x" by simp
    with True have "a # xs = [] @ x # xs \<and> (\<forall>y\<in>set []. \<not> P y) \<and> P x" by simp
    then show ?thesis by blast
  next
    case False
    with Cons obtain pre post where
      "xs = pre @ x # post" "\<forall>y\<in>set pre. \<not> P y" "P x" by auto
    with False have "a # xs = (a # pre) @ x # post \<and> (\<forall>y\<in>set (a # pre). \<not> P y) \<and> P x"
      by simp
    then show ?thesis by blast
  qed
qed

lemma append_to_first_split:
  "\<forall>y\<in>set pre. tag y \<noteq> t \<Longrightarrow> tag x = t \<Longrightarrow>
   append_to_first t new (pre @ x # post)
     = pre @ Element (tag x) (attrib x) (etext x) (etail x) (children x @ [new]) # post"
  by (induction pre) auto

lemma tag_new_item: "tag (new_item c f s) = py ''item''"
  by (simp add: new_item_def)

lemma guid_text_new_item:
  "guid_text (new_item c f s) = (if docket c = [] then None else Some (docket c))"
  by (simp add: guid_text_def new_item_def find_child_def py_def)

lemma find_child_with_item:
  assumes "find_child root (py ''channel'') = Some ch"
  shows "find_child (with_item root new) (py ''channel'')
           = Some (Element (tag ch) (attrib ch) (etext ch) (etail ch) (children ch @ [new]))"
  using assms by (simp add: find_child_def with_item_def find_append_to_first)

lemma entries_with_item:
  assumes "find_child root (py ''channel'') = Some ch" and "tag new = py ''item''"
  shows "entries (with_item root new) = entries root @ [new]"
  using assms by (simp add: entries_def find_child_with_item findall_def)

lemma entry_ids_with_item:
  assumes "find_child root (py ''channel'') = Some ch"
  shows "entry_ids (with_item root (new_item c f s))
           = entry_ids root @ (if docket c = [] then [] else [docket c])"
  using assms
  by (simp add: entry_ids_def entries_with_item tag_new_item List.map_filter_def guid_text_new_item)

lemma well_formed_append_to_first:
  "list_all well_formed_xml (append_to_first t new cs)
     \<longleftrightarrow> list_all well_formed_xml cs
         \<and> (List.find (\<lambda>c. tag c = t) cs \<noteq> None \<longrightarrow> well_formed_xml new)"
  by (induction cs) (auto simp: well_formed_xml_iff)

lemma well_formed_with_item:
  assumes "find_child root (py ''channel'') = Some ch"
  shows "well_formed_xml (with_item root new) \<longleftrightarrow> well_formed_xml root \<and> well_formed_xml new"
  using assms
  by (auto simp: with_item_def well_formed_append_to_first find_child_def
                 well_formed_xml_iff[of root])

lemma parsed_back_append_to_first:
  "map parsed_back (append_to_first t new cs)
     = append_to_first t (parsed_back new) (map parsed_back cs)"
  by (induction cs) simp_all

lemma parsed_back_with_item:
  "parsed_back (with_item root new) = with_item (parsed_back root) (parsed_back new)"
  by (simp add: with_item_def parsed_back_append_to_first)

lemma entries_written:
  assumes "find_child root (py ''channel'') = Some ch" and "tag new = py ''item''"
  shows "entries (parsed_back (with_item root new))
           = map parsed_back (entries root) @ [parsed_back new]"
  using assms by (simp add: entries_parsed_back entries_with_item)

lemma entry_ids_written:
  assumes "find_child root (py ''channel'') = Some ch"
  shows "entry_ids (parsed_back (with_item root (new_item c f s)))
           = map eol_normalize (entry_ids root @ (if docket c = [] then [] else [docket c]))"
  using assms by (simp add: entry_ids_parsed_back entry_ids_with_item)

lemma find_child_written:
  assumes "find_child root (py ''channel'') = Some ch"
  shows "find_child (parsed_back (with_item root new)) (py ''channel'') \<noteq> None"
  using assms by (simp add: find_child_parsed_back find_child_with_item)

section \<open>What goes into a new entry\<close>

lemma xml_str_append [simp]: "xml_str (a @ b) \<longleftrightarrow> xml_str a \<and> xml_str b"
  by (simp add: xml_str_def)

lemma xml_str_Cons [simp]: "xml_str (x # xs) \<longleftrightarrow> xml_char x \<and> xml_str xs"
  by (simp add: xml_str_def)

lemma xml_str_Nil [simp]: "xml_str []"
  by (simp add: xml_str_def)

lemma xml_char_digit: "k < 10 \<Longrightarrow> xml_char (48 + k)"
  by (simp add: xml_char_def)

lemma xml_str_str_nat: "xml_str (str_nat n)"
proof (induction n rule: str_nat.induct)
  case (1 n)
  show ?case
  proof (cases "n < 10")
    case True
    then show ?thesis by (subst str_nat.simps) (simp add: xml_char_digit)
  next
    case False
    have "n mod 10 < 10" by simp
    with 1 False show ?thesis
      by (subst str_nat.simps) (simp add: xml_char_digit)
  qed
qed

lemma xml_str_str_int: "xml_str (str_int i)"
  by (simp add: str_int_def xml_str_str_nat) (simp add: xml_char_def py_def)

lemma well_formed_new_item:
  "well_formed_xml (new_item c f s)
     \<longleftrightarrow> xml_str (docket c) \<and> xml_str (title c) \<and> xml_str f
         \<and> xml_str (format_datetime (date c))"
proof -
  have k: "xml_str (py ''Oral argument for docket '')" "xml_str (py '': '')"
    "xml_str (py ''.'')" "xml_str (py ''no'')" "xml_str (py ''audio/mpeg'')"
    "xml_str (py ''false'')" "xml_str (py ''/'')" "xml_str PODCAST_BASE_URL"
    "xml_char 32" "xml_char 8211"
    by (simp_all add: xml_char_def py_def PODCAST_BASE_URL_def)
  show ?thesis
    by (auto simp: new_item_def xml_text_def k xml_str_str_int)
qed

section \<open>What \<^verbatim>\<open>add_item_to_feed\<close> does to the state\<close>

lemma add_item_to_feed_ok:
  assumes "docs w p = Some (WellFormed root)"
      and "find_child root (py ''channel'') = Some ch"
      and "fault w p = NoFault"
  shows "add_item_to_feed w p c f s =
           (Inr (), w\<lparr>docs := (docs w)(p \<mapsto> write_parse (with_item root (new_item c f s)))\<rparr>)"
  using assms by (simp add: add_item_to_feed_def ET_parse_def tree_write_def with_item_def)

lemma add_item_to_feed_Inr:
  assumes "add_item_to_feed w p c f s = (Inr u, w')"
  shows "\<exists>root ch. docs w p = Some (WellFormed root)
            \<and> find_child root (py ''channel'') = Some ch
            \<and> fault w p = NoFault
            \<and> w' = w\<lparr>docs := (docs w)(p \<mapsto> write_parse (with_item root (new_item c f s)))\<rparr>"
  using assms
  by (auto simp: add_item_to_feed_def ET_parse_def tree_write_def with_item_def
           split: option.splits doc.splits write_fault.splits)

lemma add_item_to_feed_Inl:
  assumes "add_item_to_feed w p c f s = (Inl e, w')"
  shows "w' = w \<or> (e = OSError \<and> w' = w\<lparr>docs := (docs w)(p \<mapsto> NotWellFormed)\<rparr>)"
  using assms
  by (auto simp: add_item_to_feed_def ET_parse_def tree_write_def
           split: option.splits doc.splits write_fault.splits)

lemma load_after_add:
  assumes "docs w p = Some (WellFormed root)"
      and "find_child root (py ''channel'') = Some ch"
      and "fault w p = NoFault"
      and "well_formed_xml (with_item root (new_item c f s))"
  shows "load_existing_guids (snd (add_item_to_feed w p c f s)) p
        = Inr (strip ` eol_normalize ` set (entry_ids root)
               \<union> (if docket c = [] then {} else {strip (eol_normalize (docket c))}))"
proof -
  have d: "docs (snd (add_item_to_feed w p c f s)) p
             = Some (WellFormed (parsed_back (with_item root (new_item c f s))))"
    using assms(4) by (simp add: add_item_to_feed_ok[OF assms(1-3)] write_parse_def)
  from find_child_written[OF assms(2), of "new_item c f s"] obtain ch' where
    "find_child (parsed_back (with_item root (new_item c f s))) (py ''channel'') = Some ch'"
    by auto
  from load_existing_guids_Inr[OF d this] show ?thesis
    by (auto simp: entry_ids_written[OF assms(2)])
qed

lemma load_after_bad_add:
  assumes "docs w p = Some (WellFormed root)"
      and "find_child root (py ''channel'') = Some ch"
      and "fault w p = NoFault"
      and "\<not> well_formed_xml (with_item root (new_item c f s))"
  shows "load_existing_guids (snd (add_item_to_feed w p c f s)) p = Inl ParseError"
  using assms(4)
  by (simp add: add_item_to_feed_ok[OF assms(1-3)] write_parse_def load_existing_guids_def
                ET_parse_def)

text \<open>
  An audio file name ends in \<^verbatim>\<open>.mp3\<close> and so is never the feed path.
\<close>

lemma local_filename_not_feed: "d @ py ''.mp3'' \<noteq> FEED_PATH"
proof
  assume "d @ py ''.mp3'' = FEED_PATH"
  then have "last (d @ py ''.mp3'') = last FEED_PATH" by simp
  then show False by (simp add: py_def FEED_PATH_def)
qed

section \<open>The loop of \<^verbatim>\<open>main\<close>\<close>

lemma feed_of_upd [simp]:
  "feed_of (w\<lparr>docs := (docs v)(FEED_PATH \<mapsto> d)\<rparr>)
     = (case d of WellFormed r \<Rightarrow> Some r | NotWellFormed \<Rightarrow> None)"
  by (simp add: feed_of_def)

lemma feed_of_Some:
  "feed_of w = Some root \<longleftrightarrow> docs w FEED_PATH = Some (WellFormed root)"
  by (auto simp: feed_of_def split: option.splits doc.splits)

lemma obtain_size_frame:
  assumes "obtain_size w c = (r, w1)"
  shows "docs w1 = docs w \<and> fault w1 = fault w \<and> remote w1 = remote w
         \<and> (\<forall>p. assets w p \<noteq> None \<longrightarrow> assets w1 p \<noteq> None)"
  using assms
  by (auto simp: obtain_size_def download_mp3_def Let_def split: if_splits option.splits)

lemma obtain_size_ok:
  assumes "fetchable w c"
  shows "\<exists>s w1. obtain_size w c = (Inr s, w1)"
  using assms
  by (auto simp: fetchable_def obtain_size_def os_path_exists_def os_path_getsize_def
                 download_mp3_def Let_def split: option.splits)

lemma process_case_Inr:
  assumes "process_case w c = (Inr u, w')"
  shows "\<exists>root ch s w1. docs w FEED_PATH = Some (WellFormed root)
            \<and> find_child root (py ''channel'') = Some ch
            \<and> obtain_size w c = (Inr s, w1)
            \<and> w' = w1\<lparr>docs := (docs w)(FEED_PATH \<mapsto>
                        write_parse (with_item root (new_item c (docket c @ py ''.mp3'') s)))\<rparr>"
proof -
  obtain r w1 where o: "obtain_size w c = (r, w1)" by (cases "obtain_size w c")
  with assms obtain s where r: "r = Inr s"
    by (cases r) (auto simp: process_case_def)
  from o r assms have a: "add_item_to_feed w1 FEED_PATH c (docket c @ py ''.mp3'') s = (Inr u, w')"
    by (simp add: process_case_def)
  from obtain_size_frame[OF o] have d: "docs w1 = docs w" by simp
  from add_item_to_feed_Inr[OF a] d o r show ?thesis by auto
qed

lemma process_case_Inl:
  assumes "process_case w c = (Inl e, w')"
  shows "docs w' = docs w \<or> docs w' = (docs w)(FEED_PATH \<mapsto> NotWellFormed)"
proof -
  obtain r w1 where o: "obtain_size w c = (r, w1)" by (cases "obtain_size w c")
  from obtain_size_frame[OF o] have d: "docs w1 = docs w" by simp
  show ?thesis
  proof (cases r)
    case (Inl e')
    with o assms have "w' = w1" by (simp add: process_case_def)
    with d show ?thesis by simp
  next
    case (Inr s)
    with o assms have "add_item_to_feed w1 FEED_PATH c (docket c @ py ''.mp3'') s = (Inl e, w')"
      by (simp add: process_case_def)
    from add_item_to_feed_Inl[OF this] d show ?thesis by auto
  qed
qed

lemma process_case_ok:
  assumes "feed_of w = Some root" and "find_child root (py ''channel'') = Some ch"
      and "fault w FEED_PATH = NoFault" and "fetchable w c"
  shows "\<exists>w'. process_case w c = (Inr (), w')"
proof -
  from obtain_size_ok[OF assms(4)] obtain s w1 where o: "obtain_size w c = (Inr s, w1)"
    by blast
  from obtain_size_frame[OF o] assms(1,3)
  have "docs w1 FEED_PATH = Some (WellFormed root)" "fault w1 FEED_PATH = NoFault"
    by (simp_all add: feed_of_Some)
  from add_item_to_feed_ok[OF this(1) assms(2) this(2)] o show ?thesis
    by (simp add: process_case_def)
qed

lemma process_case_env:
  assumes "process_case w c = (r, w')"
  shows "fault w' = fault w \<and> remote w' = remote w
         \<and> (\<forall>p. assets w p \<noteq> None \<longrightarrow> assets w' p \<noteq> None)"
proof -
  obtain r1 w1 where o: "obtain_size w c = (r1, w1)" by (cases "obtain_size w c")
  note f = obtain_size_frame[OF o]
  show ?thesis
  proof (cases r1)
    case (Inl e)
    with o assms have "w' = w1" by (simp add: process_case_def)
    with f show ?thesis by simp
  next
    case (Inr s)
    with o assms have a: "add_item_to_feed w1 FEED_PATH c (docket c @ py ''.mp3'') s = (r, w')"
      by (simp add: process_case_def)
    show ?thesis
    proof (cases r)
      case (Inl e)
      from add_item_to_feed_Inl[OF a[unfolded Inl]] f show ?thesis by auto
    next
      case (Inr u)
      from add_item_to_feed_Inr[OF a[unfolded Inr]] f show ?thesis by auto
    qed
  qed
qed

lemma fetchable_mono:
  assumes "fetchable w c" and "remote w' = remote w"
      and "\<forall>p. assets w p \<noteq> None \<longrightarrow> assets w' p \<noteq> None"
  shows "fetchable w' c"
  using assms by (auto simp: fetchable_def os_path_exists_def)

lemma main_loop_env:
  "main_loop w cs = (r, w') \<Longrightarrow>
     fault w' = fault w \<and> remote w' = remote w
     \<and> (\<forall>p. assets w p \<noteq> None \<longrightarrow> assets w' p \<noteq> None)"
proof (induction cs arbitrary: w)
  case Nil
  then show ?case by simp
next
  case (Cons c cs)
  obtain r1 w1 where p: "process_case w c = (r1, w1)" by (cases "process_case w c")
  note e = process_case_env[OF p]
  show ?case
  proof (cases r1)
    case (Inl e')
    with p Cons.prems have "w' = w1" by simp
    with e show ?thesis by simp
  next
    case (Inr u)
    with p Cons.prems have "main_loop w1 cs = (r, w')" by simp
    from Cons.IH[OF this] e show ?thesis by simp
  qed
qed

text \<open>Once the feed file does not parse, the loop leaves it as it is.\<close>

lemma process_case_no_feed:
  assumes "process_case w c = (r, w')" and "feed_of w = None"
  shows "docs w' = docs w \<and> (\<exists>e. r = Inl e)"
proof -
  obtain r1 w1 where o: "obtain_size w c = (r1, w1)" by (cases "obtain_size w c")
  from obtain_size_frame[OF o] have d: "docs w1 = docs w" by simp
  show ?thesis
  proof (cases r1)
    case (Inl e)
    with o assms(1) d show ?thesis by (auto simp: process_case_def)
  next
    case (Inr s)
    with o assms(1) have
      a: "add_item_to_feed w1 FEED_PATH c (docket c @ py ''.mp3'') s = (r, w')"
      by (simp add: process_case_def)
    from assms(2) d have "\<exists>e. ET_parse w1 FEED_PATH = Inl e"
      by (auto simp: feed_of_def ET_parse_def split: option.splits doc.splits)
    with a d show ?thesis by (auto simp: add_item_to_feed_def)
  qed
qed

lemma main_loop_no_feed:
  assumes "main_loop w cs = (r, w')" and "feed_of w = None"
  shows "docs w' = docs w"
proof (cases cs)
  case Nil
  with assms show ?thesis by simp
next
  case (Cons c cs')
  obtain r1 w1 where p: "process_case w c = (r1, w1)" by (cases "process_case w c")
  from process_case_no_feed[OF p assms(2)] obtain e where "docs w1 = docs w" "r1 = Inl e"
    by blast
  with p assms(1) Cons show ?thesis by simp
qed

lemma main_loop_feed:
  assumes "main_loop w cs = (r, w')"
      and "feed_of w = Some root"
      and "find_child root (py ''channel'') = Some ch"
      and "feed_of w' = Some root'"
  shows "root' = root
         \<or> (\<exists>k\<le>length cs.
               entry_ids root' = map eol_normalize
                 (entry_ids root @ filter (\<lambda>d. d \<noteq> []) (map docket (take k cs))))"
  using assms
proof (induction cs arbitrary: w root ch)
  case Nil
  then show ?case by auto
next
  case (Cons c cs)
  obtain r1 w1 where p: "process_case w c = (r1, w1)" by (cases "process_case w c")
  show ?case
  proof (cases r1)
    case (Inl e)
    with p Cons.prems(1) have eq: "r = Inl e" "w' = w1" by auto
    from process_case_Inl[OF p[unfolded Inl]] eq Cons.prems(2,4)
    have "root' = root" by (auto simp: feed_of_def split: option.splits doc.splits)
    then show ?thesis ..
  next
    case (Inr u)
    with p Cons.prems(1) have ml: "main_loop w1 cs = (r, w')" by simp
    from process_case_Inr[OF p[unfolded Inr]] Cons.prems(2) obtain s where
      d1: "docs w1 FEED_PATH
             = Some (write_parse (with_item root (new_item c (docket c @ py ''.mp3'') s)))"
      by (auto simp: feed_of_Some)
    let ?t = "with_item root (new_item c (docket c @ py ''.mp3'') s)"
    let ?d = "if docket c = [] then [] else [docket c]"
    show ?thesis
    proof (cases "well_formed_xml ?t")
      case False
      with d1 have "feed_of w1 = None" by (simp add: feed_of_def write_parse_def)
      from main_loop_no_feed[OF ml this] d1 False Cons.prems(4) show ?thesis
        by (simp add: feed_of_def write_parse_def)
    next
      case True
      with d1 have f1: "feed_of w1 = Some (parsed_back ?t)"
        by (simp add: feed_of_def write_parse_def)
      from find_child_written[OF Cons.prems(3)] obtain ch1 where
        ch1: "find_child (parsed_back ?t) (py ''channel'') = Some ch1" by auto
      have i1: "entry_ids (parsed_back ?t) = map eol_normalize (entry_ids root @ ?d)"
        by (rule entry_ids_written[OF Cons.prems(3)])
      from Cons.IH[OF ml f1 ch1 Cons.prems(4)] show ?thesis
      proof
        assume "root' = parsed_back ?t"
        with i1 have "Suc 0 \<le> length (c # cs) \<and>
            entry_ids root' = map eol_normalize
              (entry_ids root @ filter (\<lambda>d. d \<noteq> []) (map docket (take (Suc 0) (c # cs))))"
          by simp
        then show ?thesis by blast
      next
        assume "\<exists>k\<le>length cs. entry_ids root' = map eol_normalize
                 (entry_ids (parsed_back ?t)
                    @ filter (\<lambda>d. d \<noteq> []) (map docket (take k cs)))"
        then obtain k where k: "k \<le> length cs"
          "entry_ids root' = map eol_normalize
                 (entry_ids (parsed_back ?t)
                    @ filter (\<lambda>d. d \<noteq> []) (map docket (take k cs)))" by blast
        have "Suc k \<le> length (c # cs) \<and>
            entry_ids root' = map eol_normalize
              (entry_ids root @ filter (\<lambda>d. d \<noteq> []) (map docket (take (Suc k) (c # cs))))"
          using k by (simp add: i1 eol_normalize_idem comp_def)
        then show ?thesis by blast
      qed
    qed
  qed
qed

lemma main_loop_Inr_feed:
  assumes "main_loop w cs = (Inr u, w')"
      and "feed_of w = Some root"
      and "find_child root (py ''channel'') = Some ch"
      and "cs \<noteq> []"
  shows "docs w' FEED_PATH = Some NotWellFormed
         \<or> (\<exists>root'. feed_of w' = Some root'
               \<and> entry_ids root' = map eol_normalize
                    (entry_ids root @ filter (\<lambda>d. d \<noteq> []) (map docket cs))
               \<and> find_child root' (py ''channel'') \<noteq> None)"
  using assms
proof (induction cs arbitrary: w root ch)
  case Nil
  then show ?case by simp
next
  case (Cons c cs)
  obtain r1 w1 where p: "process_case w c = (r1, w1)" by (cases "process_case w c")
  with Cons.prems(1) obtain u1 where r1: "r1 = Inr u1" by (cases r1) auto
  with p Cons.prems(1) have ml: "main_loop w1 cs = (Inr u, w')" by simp
  from process_case_Inr[OF p[unfolded r1]] Cons.prems(2) obtain s where
    d1: "docs w1 FEED_PATH
           = Some (write_parse (with_item root (new_item c (docket c @ py ''.mp3'') s)))"
    by (auto simp: feed_of_Some)
  let ?t = "with_item root (new_item c (docket c @ py ''.mp3'') s)"
  let ?d = "if docket c = [] then [] else [docket c]"
  have i1: "entry_ids (parsed_back ?t) = map eol_normalize (entry_ids root @ ?d)"
    by (rule entry_ids_written[OF Cons.prems(3)])
  from find_child_written[OF Cons.prems(3)] obtain ch1 where
    ch1: "find_child (parsed_back ?t) (py ''channel'') = Some ch1" by auto
  show ?case
  proof (cases "well_formed_xml ?t")
    case False
    with d1 have n: "feed_of w1 = None" "docs w1 FEED_PATH = Some NotWellFormed"
      by (simp_all add: feed_of_def write_parse_def)
    from main_loop_no_feed[OF ml n(1)] n(2) show ?thesis by simp
  next
    case True
    with d1 have f1: "feed_of w1 = Some (parsed_back ?t)"
      by (simp add: feed_of_def write_parse_def)
    show ?thesis
    proof (cases "cs = []")
      case e: True
      with ml have "w' = w1" by simp
      with f1 i1 ch1 e show ?thesis by simp
    next
      case ne: False
      from Cons.IH[OF ml f1 ch1 ne] show ?thesis
        by (auto simp: i1 eol_normalize_idem comp_def)
    qed
  qed
qed

lemma xml_str_mp3: "xml_str (py ''.mp3'')"
  by (simp add: py_def xml_char_def)

lemma main_loop_ok:
  assumes "feed_of w = Some root" and "find_child root (py ''channel'') = Some ch"
      and "fault w FEED_PATH = NoFault" and "well_formed_xml root"
      and "list_all (fetchable w) cs" and "list_all case_xml cs"
  shows "\<exists>w' root'. main_loop w cs = (Inr (), w') \<and> feed_of w' = Some root'
           \<and> find_child root' (py ''channel'') \<noteq> None \<and> well_formed_xml root'
           \<and> (if cs = [] then root' = root
               else entry_ids root' = map eol_normalize
                      (entry_ids root @ filter (\<lambda>d. d \<noteq> []) (map docket cs)))"
  using assms
proof (induction cs arbitrary: w root ch)
  case Nil
  then show ?case by simp
next
  case (Cons c cs)
  from Cons.prems(5) have fc: "fetchable w c" and fcs: "list_all (fetchable w) cs" by simp_all
  from Cons.prems(6) have xc: "case_xml c" and xcs: "list_all case_xml cs" by simp_all
  from process_case_ok[OF Cons.prems(1,2,3) fc] obtain w1 where
    p: "process_case w c = (Inr (), w1)" by blast
  from process_case_Inr[OF p] Cons.prems(1) obtain s where
    d1: "docs w1 FEED_PATH
           = Some (write_parse (with_item root (new_item c (docket c @ py ''.mp3'') s)))"
    by (auto simp: feed_of_Some)
  let ?t = "with_item root (new_item c (docket c @ py ''.mp3'') s)"
  let ?d = "if docket c = [] then [] else [docket c]"
  have wf: "well_formed_xml ?t"
    using xc Cons.prems(4)
    by (simp add: well_formed_with_item[OF Cons.prems(2)] well_formed_new_item case_xml_def
                  xml_str_mp3)
  with d1 have f1: "feed_of w1 = Some (parsed_back ?t)"
    by (simp add: feed_of_def write_parse_def)
  from find_child_written[OF Cons.prems(2)] obtain ch1 where
    ch1: "find_child (parsed_back ?t) (py ''channel'') = Some ch1" by auto
  have i1: "entry_ids (parsed_back ?t) = map eol_normalize (entry_ids root @ ?d)"
    by (rule entry_ids_written[OF Cons.prems(2)])
  from wf have wf1: "well_formed_xml (parsed_back ?t)" by (rule well_formed_parsed_back)
  note e = process_case_env[OF p]
  from e Cons.prems(3) have nf: "fault w1 FEED_PATH = NoFault" by simp
  from fcs e have "list_all (fetchable w1) cs"
    by (auto simp: list_all_iff intro: fetchable_mono)
  from Cons.IH[OF f1 ch1 nf wf1 this xcs] obtain w' root' where r:
    "main_loop w1 cs = (Inr (), w')" "feed_of w' = Some root'"
    "find_child root' (py ''channel'') \<noteq> None" "well_formed_xml root'"
    "if cs = [] then root' = parsed_back ?t
     else entry_ids root' = map eol_normalize
            (entry_ids (parsed_back ?t) @ filter (\<lambda>d. d \<noteq> []) (map docket cs))"
    by blast
  have "entry_ids root' = map eol_normalize
          (entry_ids root @ filter (\<lambda>d. d \<noteq> []) (map docket (c # cs)))"
    using r(5) by (cases "cs = []") (simp_all add: i1 eol_normalize_idem comp_def)
  with r p show ?case by simp
qed

lemma load_existing_guids_feed:
  assumes "feed_of w = Some root" and "find_child root (py ''channel'') = Some ch"
  shows "load_existing_guids w FEED_PATH = Inr (strip ` set (entry_ids root))"
  using assms by (simp add: feed_of_Some load_existing_guids_Inr)

lemma main_runnable:
  assumes "runnable w cases" and "feed_ids w = Some ids"
  shows "fst (main w cases) = Inr ()
         \<and> runnable (snd (main w cases)) cases
         \<and> feed_ids (snd (main w cases))
             = Some (if new_cases cases (strip ` set ids) = [] then ids
                     else map eol_normalize
                       (ids @ filter (\<lambda>d. d \<noteq> [])
                                (map docket (new_cases cases (strip ` set ids)))))"
proof -
  from assms obtain root ch where
    r: "feed_of w = Some root" "find_child root (py ''channel'') = Some ch"
       "fault w FEED_PATH = NoFault" "list_all (fetchable w) cases" "ids = entry_ids root"
       "well_formed_xml root" "list_all case_xml cases"
    by (auto simp: runnable_def feed_ids_def split: option.splits)
  note l = load_existing_guids_feed[OF r(1,2)]
  let ?todo = "new_cases cases (strip ` set ids)"
  show ?thesis
  proof (cases "?todo = []")
    case True
    with l r(5) have "main w cases = (Inr (), w)" by (simp add: main_def)
    with True assms show ?thesis by simp
  next
    case False
    with l r(5) have m: "main w cases = main_loop w ?todo" by (simp add: main_def)
    from r(4,7) have "list_all (fetchable w) ?todo" "list_all case_xml ?todo"
      by (simp_all add: new_cases_def list_all_iff)
    from main_loop_ok[OF r(1,2,3,6) this] False obtain w' root' where ml:
      "main_loop w ?todo = (Inr (), w')" "feed_of w' = Some root'"
      "find_child root' (py ''channel'') \<noteq> None" "well_formed_xml root'"
      "entry_ids root' = map eol_normalize
          (entry_ids root @ filter (\<lambda>d. d \<noteq> []) (map docket ?todo))"
      by (auto split: if_splits)
    note e = main_loop_env[OF ml(1)]
    from r(4) e have "list_all (fetchable w') cases"
      by (auto simp: list_all_iff intro: fetchable_mono)
    with ml e r(3,7) have "runnable w' cases" by (simp add: runnable_def)
    with m ml r(5) False show ?thesis by (simp add: feed_ids_def)
  qed
qed

section \<open>The example data evaluated\<close>

lemma ex_docs: "docs ex_world FEED_PATH = Some (WellFormed ex_root)"
  by (simp add: ex_world_def)

lemma ex_chan: "find_child ex_root (py ''channel'') = Some ex_channel"
  by (simp add: find_child_def ex_root_def ex_channel_def)

lemma ex_ids: "entry_ids ex_root = [py ''2024-1001'']"
  by (simp add: entry_ids_def entries_def findall_def ex_root_def ex_channel_def ex_item_def
                guid_text_def find_child_def py_def)

lemma ex_feed_ids: "feed_ids ex_world = Some [py ''2024-1001'']"
  by (simp add: feed_ids_def feed_of_def ex_docs ex_ids)

lemma ex_fault: "fault ex_world FEED_PATH = NoFault"
  by (simp add: ex_world_def)

lemma ex_well_formed: "well_formed_xml ex_root"
  by (simp add: ex_root_def ex_channel_def ex_item_def xml_text_def py_def xml_char_def)

lemma ex_pubdate: "format_datetime ex_date = py ''Fri, 01 Mar 2024 00:00:00 -0000''"
  by (simp add: format_datetime_def ex_date_def py_def weekday_def toordinal_def
        days_before_year_def days_before_month_def days_in_month_def is_leap_def
        day_names_def month_names_def zero_pad_def str_nat.simps upt_rec)

lemma ex_pubdate_xml: "xml_str (format_datetime ex_date)"
  unfolding ex_pubdate by (simp add: py_def xml_char_def)

lemma ex_case_xml:
  "case_xml ex_old" "case_xml ex_new" "case_xml ws_case" "case_xml cr_case" "case_xml lf_case"
  by (simp_all add: case_xml_def ex_old_def ex_new_def ws_case_def cr_case_def lf_case_def
                    ex_pubdate_xml)
     (simp_all add: py_def xml_char_def)

lemma ff_case_not_xml: "\<not> xml_str (docket ff_case)"
  by (simp add: ff_case_def xml_char_def)

lemma strip_1001: "strip (py ''2024-1001'') = py ''2024-1001''"
  by (simp add: strip_def isspace_def py_def)

lemma strip_1002: "strip (py ''2024-1002'') = py ''2024-1002''"
  by (simp add: strip_def isspace_def py_def)

lemma strip_ws: "strip (py '' a.mp3'') = py ''a.mp3''"
  by (simp add: strip_def isspace_def py_def)

lemma strip_ws_1002: "strip (py ''  2024-1002 '') = py ''2024-1002''"
  by (simp add: strip_def isspace_def py_def)

lemma ex_feed: "feed_of ex_world = Some ex_root"
  by (simp add: feed_of_def ex_docs)

lemma ex_fetchable:
  "fetchable ex_world ex_old" "fetchable ex_world ex_new" "fetchable ex_world ws_case"
  "fetchable ex_world cr_case" "fetchable ex_world lf_case" "fetchable ex_world ff_case"
  by (simp_all add: fetchable_def ex_world_def ex_old_def ex_new_def ws_case_def cr_case_def
                    lf_case_def ff_case_def py_def)

lemma ex_runnable:
  assumes "list_all (fetchable ex_world) cases" and "list_all case_xml cases"
  shows "runnable ex_world cases"
  using assms by (simp add: runnable_def ex_feed ex_chan ex_well_formed ex_fault)

lemma ex_runnable_dup: "runnable ex_world [ex_new, ex_new]"
  by (rule ex_runnable) (simp_all add: ex_fetchable ex_case_xml)

lemma ex_runnable_ws: "runnable ex_world [ws_case]"
  by (rule ex_runnable) (simp_all add: ex_fetchable ex_case_xml)

lemma ex_runnable_pair: "runnable ex_world [ex_old, ex_new]"
  by (rule ex_runnable) (simp_all add: ex_fetchable ex_case_xml)

lemma ex_runnable_cr: "runnable ex_world [cr_case]"
  by (rule ex_runnable) (simp_all add: ex_fetchable ex_case_xml)

lemma ex_runnable_cr_lf: "runnable ex_world [cr_case, lf_case]"
  by (rule ex_runnable) (simp_all add: ex_fetchable ex_case_xml)

lemma ws_docs: "docs ws_world FEED_PATH = Some (WellFormed ws_root)"
  by (simp add: ws_world_def)

lemma ws_chan: "find_child ws_root (py ''channel'') = Some ws_channel"
  by (simp add: find_child_def ws_root_def ws_channel_def)

lemma ws_ids: "entry_ids ws_root = [py ''  2024-1002 '']"
  by (simp add: entry_ids_def entries_def findall_def ws_root_def ws_channel_def
                guid_text_def find_child_def py_def)

lemma blank_docs: "docs blank_world FEED_PATH = Some (WellFormed blank_root)"
  by (simp add: blank_world_def)

lemma blank_ids: "entry_ids blank_root = [py '' a.mp3'', py ''   '']"
  by (simp add: entry_ids_def entries_def findall_def blank_root_def
                guid_text_def find_child_def py_def)

lemma blank_chan: "find_child blank_root (py ''channel'') \<noteq> None"
  by (simp add: find_child_def blank_root_def)

lemma strip_blank: "strip (py ''   '') = []"
  by (simp add: strip_def isspace_def py_def)

lemma plain_docs: "docs plain_world FEED_PATH = Some (WellFormed plain_root)"
  by (simp add: plain_world_def)

lemma plain_ids: "entry_ids plain_root = [py ''a.mp3'']"
  by (simp add: entry_ids_def entries_def findall_def plain_root_def
                guid_text_def find_child_def py_def)

lemma plain_chan: "find_child plain_root (py ''channel'') \<noteq> None"
  by (simp add: find_child_def plain_root_def)

lemma plain_runnable: "runnable plain_world [ws_case]"
  by (simp add: runnable_def feed_of_def plain_docs plain_chan ex_case_xml)
     (simp add: plain_world_def ex_world_def fetchable_def ws_case_def plain_root_def
                xml_text_def py_def xml_char_def)

lemma cr_docs: "docs cr_world FEED_PATH = Some (WellFormed cr_root)"
  by (simp add: cr_world_def)

lemma cr_ids: "entry_ids cr_root = [[97, 13, 98, 46, 109, 112, 51]]"
  by (simp add: entry_ids_def entries_def findall_def cr_root_def
                guid_text_def find_child_def py_def)

lemma cr_chan: "find_child cr_root (py ''channel'') \<noteq> None"
  by (simp add: find_child_def cr_root_def)

lemma cr_fault: "fault cr_world FEED_PATH = NoFault"
  by (simp add: cr_world_def ex_world_def)

lemma cr_well_formed: "well_formed_xml cr_root"
  by (simp add: cr_root_def xml_text_def py_def xml_char_def)

lemma cr_runnable: "runnable cr_world [lf_case]"
  by (simp add: runnable_def feed_of_def cr_docs cr_chan ex_case_xml cr_well_formed cr_fault)
     (simp add: cr_world_def ex_world_def fetchable_def lf_case_def py_def)

lemma cr_feed_ids: "feed_ids cr_world = Some [[97, 13, 98, 46, 109, 112, 51]]"
  by (simp add: feed_ids_def feed_of_def cr_docs cr_ids)

lemma plain_feed_ids: "feed_ids plain_world = Some [py ''a.mp3'']"
  by (simp add: feed_ids_def feed_of_def plain_docs plain_ids)

text \<open>Two runs on the candidate with the identifier \<^verbatim>\<open>" a.mp3"\<close>.\<close>

lemma ex_ws_runs:
  "fst (main ex_world [ws_case]) = Inr ()
   \<and> feed_ids (snd (main ex_world [ws_case])) = Some [py ''2024-1001'', py '' a.mp3'']
   \<and> feed_ids (snd (main (snd (main ex_world [ws_case])) [ws_case]))
       = Some [py ''2024-1001'', py '' a.mp3'', py '' a.mp3'']"
proof -
  note r1 = main_runnable[OF ex_runnable_ws ex_feed_ids]
  have n1: "new_cases [ws_case] (strip ` set [py ''2024-1001'']) = [ws_case]"
    by (simp add: new_cases_def strip_def isspace_def ws_case_def py_def)
  have i1: "feed_ids (snd (main ex_world [ws_case])) = Some [py ''2024-1001'', py '' a.mp3'']"
    using r1 unfolding n1 by (simp add: ws_case_def py_def)
  from r1 have ru: "runnable (snd (main ex_world [ws_case])) [ws_case]" by simp
  note r2 = main_runnable[OF ru i1]
  have n2: "new_cases [ws_case] (strip ` set [py ''2024-1001'', py '' a.mp3'']) = [ws_case]"
    by (simp add: new_cases_def strip_def isspace_def ws_case_def py_def)
  have i2: "feed_ids (snd (main (snd (main ex_world [ws_case])) [ws_case]))
       = Some [py ''2024-1001'', py '' a.mp3'', py '' a.mp3'']"
    using r2 unfolding n2 by (simp add: ws_case_def py_def)
  from r1 i1 i2 show ?thesis by simp
qed

text \<open>Two runs on the candidate with the identifier \<^verbatim>\<open>"a\rb.mp3"\<close>.\<close>

lemma ex_cr_runs:
  "fst (main ex_world [cr_case]) = Inr ()
   \<and> feed_ids (snd (main ex_world [cr_case]))
       = Some [py ''2024-1001'', [97, 10, 98, 46, 109, 112, 51]]
   \<and> feed_ids (snd (main (snd (main ex_world [cr_case])) [cr_case]))
       = Some [py ''2024-1001'', [97, 10, 98, 46, 109, 112, 51],
               [97, 10, 98, 46, 109, 112, 51]]"
proof -
  note r1 = main_runnable[OF ex_runnable_cr ex_feed_ids]
  have n1: "new_cases [cr_case] (strip ` set [py ''2024-1001'']) = [cr_case]"
    by (simp add: new_cases_def strip_def isspace_def cr_case_def py_def)
  have i1: "feed_ids (snd (main ex_world [cr_case]))
       = Some [py ''2024-1001'', [97, 10, 98, 46, 109, 112, 51]]"
    using r1 unfolding n1 by (simp add: cr_case_def py_def)
  from r1 have ru: "runnable (snd (main ex_world [cr_case])) [cr_case]" by simp
  note r2 = main_runnable[OF ru i1]
  have n2: "new_cases [cr_case]
              (strip ` set [py ''2024-1001'', [97, 10, 98, 46, 109, 112, 51]]) = [cr_case]"
    by (simp add: new_cases_def strip_def isspace_def cr_case_def py_def)
  have i2: "feed_ids (snd (main (snd (main ex_world [cr_case])) [cr_case]))
       = Some [py ''2024-1001'', [97, 10, 98, 46, 109, 112, 51],
               [97, 10, 98, 46, 109, 112, 51]]"
    using r2 unfolding n2 by (simp add: cr_case_def py_def)
  from r1 i1 i2 show ?thesis by simp
qed

section \<open>The dedup step\<close>

lemma new_cases_count:
  "count_list (new_cases cs E) c = (if docket c \<in> E then 0 else count_list cs c)"
  unfolding new_cases_def by (induction cs) auto

lemma new_cases_subseq: "subseq (new_cases cs E) cs"
  unfolding new_cases_def by simp

text \<open>
  C1. The dedup step of \<^verbatim>\<open>main\<close> keeps exactly the candidates whose identifier is absent
  from the existing identifiers (each as often as it was listed, none whose identifier is
  present), keeps them in discovery order, and keeps the whole list when the set is
  empty.
\<close>

theorem new_cases_spec:
  "count_list (new_cases cs E) c = (if docket c \<in> E then 0 else count_list cs c)
   \<and> set (new_cases cs E) = {c \<in> set cs. docket c \<notin> E}
   \<and> subseq (new_cases cs E) cs
   \<and> new_cases cs {} = cs"
proof -
  have "set (new_cases cs E) = {c \<in> set cs. docket c \<notin> E}"
    unfolding new_cases_def by auto
  moreover have "new_cases cs {} = cs"
    unfolding new_cases_def by simp
  ultimately show ?thesis
    using new_cases_count new_cases_subseq by blast
qed

text \<open>
  On the candidates \<^verbatim>\<open>2024-1001\<close>, \<^verbatim>\<open>2024-1002\<close>, \<^verbatim>\<open>2024-1002\<close> with
  \<^verbatim>\<open>2024-1001\<close> known.
\<close>

theorem new_cases_spec_witness:
  "count_list (new_cases [ex_old, ex_new, ex_new] {py ''2024-1001''}) ex_new = 2
   \<and> count_list (new_cases [ex_old, ex_new, ex_new] {py ''2024-1001''}) ex_old = 0
   \<and> subseq (new_cases [ex_old, ex_new, ex_new] {py ''2024-1001''}) [ex_old, ex_new, ex_new]
   \<and> new_cases [ex_old, ex_new, ex_new] {} = [ex_old, ex_new, ex_new]"
proof -
  have d: "docket ex_new \<notin> {py ''2024-1001''}" "docket ex_old \<in> {py ''2024-1001''}"
          "ex_old \<noteq> ex_new"
    by (simp_all add: ex_new_def ex_old_def py_def)
  show ?thesis
    using new_cases_spec[of "[ex_old, ex_new, ex_new]" "{py ''2024-1001''}" ex_new]
          new_cases_spec[of "[ex_old, ex_new, ex_new]" "{py ''2024-1001''}" ex_old] d
    by simp
qed

section \<open>Uniqueness of identifiers\<close>

lemma map_eol_normalize_id:
  "\<forall>g\<in>set xs. 13 \<notin> set g \<Longrightarrow> map eol_normalize xs = xs"
  by (induction xs) (simp_all add: eol_normalize_id)

text \<open>
  C2 (amended). When the identifiers of the feed are pairwise distinct before a run and
  hold no carriage return, and the candidates carry pairwise distinct identifiers that
  have no leading or trailing whitespace and hold no carriage return, then after the run
  of \<^verbatim>\<open>main\<close>, however it ends, the identifiers of the feed are pairwise distinct whenever
  the feed still parses. The claim as stated, for every candidate list and also for lists
  in which two candidates share an identifier, does not hold: the existing identifiers are
  read once, before the loop, so that two candidates with the same new identifier both
  pass the filter and are both appended. A candidate identifier with surrounding
  whitespace is compared verbatim with stripped stored texts and can be appended next to
  an equal stored one. A carriage return in an identifier is read back as a line feed, so
  that identifiers that differ before a run can be equal after it.
\<close>

theorem main_keeps_ids_unique:
  assumes "feed_ids w = Some ids" and "distinct ids"
      and "\<forall>g\<in>set ids. 13 \<notin> set g"
      and "distinct (map docket cases)"
      and "\<forall>c\<in>set cases. strip (docket c) = docket c \<and> 13 \<notin> set (docket c)"
      and "feed_ids (snd (main w cases)) = Some ids'"
  shows "distinct ids'"
proof -
  from assms(1) obtain root where r: "feed_of w = Some root" "ids = entry_ids root"
    by (auto simp: feed_ids_def)
  from assms(6) obtain root' where r': "feed_of (snd (main w cases)) = Some root'"
    "ids' = entry_ids root'" by (auto simp: feed_ids_def)
  show ?thesis
  proof (cases "load_existing_guids w FEED_PATH")
    case (Inl e)
    then have "main w cases = (Inl e, w)" by (simp add: main_def)
    with r r' assms(2) show ?thesis by simp
  next
    case (Inr E)
    with r obtain ch where ch: "find_child root (py ''channel'') = Some ch"
      by (auto simp: load_existing_guids_def ET_parse_def feed_of_Some split: option.splits)
    from load_existing_guids_feed[OF r(1) ch] Inr have E: "E = strip ` set ids"
      by (simp add: r(2))
    let ?todo = "new_cases cases E"
    show ?thesis
    proof (cases "?todo = []")
      case True
      with Inr have "main w cases = (Inr (), w)" by (simp add: main_def)
      with r r' assms(2) show ?thesis by simp
    next
      case False
      with Inr have m: "main w cases = main_loop w ?todo" by (simp add: main_def)
      obtain res w' where ml: "main_loop w ?todo = (res, w')" by (cases "main_loop w ?todo")
      with m r' have f': "feed_of w' = Some root'" by simp
      from main_loop_feed[OF ml r(1) ch f'] show ?thesis
      proof
        assume "root' = root"
        with r r' assms(2) show ?thesis by simp
      next
        assume "\<exists>k\<le>length ?todo. entry_ids root' = map eol_normalize
                  (entry_ids root @ filter (\<lambda>d. d \<noteq> []) (map docket (take k ?todo)))"
        then obtain k where
          k0: "entry_ids root' = map eol_normalize
                (entry_ids root @ filter (\<lambda>d. d \<noteq> []) (map docket (take k ?todo)))"
          by blast
        have "\<forall>g\<in>set (entry_ids root
                 @ filter (\<lambda>d. d \<noteq> []) (map docket (take k ?todo))). 13 \<notin> set g"
          using assms(3,5) r(2) by (auto simp: new_cases_def dest!: in_set_takeD)
        from map_eol_normalize_id[OF this] k0 have
          k: "entry_ids root' = entry_ids root
                @ filter (\<lambda>d. d \<noteq> []) (map docket (take k ?todo))" by simp
        have d1: "distinct (map docket ?todo)"
          using assms(4) by (simp add: new_cases_def distinct_map_filter)
        have "distinct (take k (map docket ?todo))" using d1 by (rule distinct_take)
        then have d2: "distinct (filter (\<lambda>d. d \<noteq> []) (map docket (take k ?todo)))"
          by (simp add: take_map)
        have d3: "set ids \<inter> set (filter (\<lambda>d. d \<noteq> []) (map docket (take k ?todo))) = {}"
        proof (rule ccontr)
          assume "\<not> ?thesis"
          then obtain c where c: "c \<in> set (take k ?todo)" "docket c \<in> set ids" by auto
          from c(1) have ct: "c \<in> set ?todo" by (rule in_set_takeD)
          then have "c \<in> set cases" "docket c \<notin> E" by (simp_all add: new_cases_def)
          with assms(5) have "strip (docket c) = docket c" by blast
          with c(2) have "docket c \<in> strip ` set ids" by force
          with E \<open>docket c \<notin> E\<close> show False by simp
        qed
        from k r(2) r'(2) assms(2) d2 d3 show ?thesis by simp
      qed
    qed
  qed
qed

text \<open>
  The feed holds \<^verbatim>\<open>2024-1001\<close> and the candidate \<^verbatim>\<open>2024-1002\<close> is listed twice: the
  run appends it twice. A feed that holds \<^verbatim>\<open>2024-1001\<close> and \<^verbatim>\<open>" a.mp3"\<close>, with the one
  candidate \<^verbatim>\<open>" a.mp3"\<close>: the run appends it next to the stored one. The two candidates
  \<^verbatim>\<open>"a\rb.mp3"\<close> and \<^verbatim>\<open>"a\nb.mp3"\<close>: both are appended and both are read back as
  \<^verbatim>\<open>"a\nb.mp3"\<close>. A feed that holds \<^verbatim>\<open>"a\rb.mp3"\<close> with the candidate \<^verbatim>\<open>"a\nb.mp3"\<close>: after
  the run the feed holds \<^verbatim>\<open>"a\nb.mp3"\<close> twice.
\<close>

theorem main_duplicate_candidates:
  "feed_ids ex_world = Some [py ''2024-1001'']
   \<and> distinct [py ''2024-1001'']
   \<and> feed_ids (snd (main ex_world [ex_new, ex_new]))
       = Some [py ''2024-1001'', py ''2024-1002'', py ''2024-1002'']
   \<and> \<not> distinct [py ''2024-1001'', py ''2024-1002'', py ''2024-1002'']
   \<and> feed_ids (snd (main ex_world [ws_case])) = Some [py ''2024-1001'', py '' a.mp3'']
   \<and> distinct [py ''2024-1001'', py '' a.mp3'']
   \<and> distinct (map docket [ws_case])
   \<and> feed_ids (snd (main (snd (main ex_world [ws_case])) [ws_case]))
       = Some [py ''2024-1001'', py '' a.mp3'', py '' a.mp3'']
   \<and> \<not> distinct [py ''2024-1001'', py '' a.mp3'', py '' a.mp3'']
   \<and> distinct (map docket [cr_case, lf_case])
   \<and> strip (docket cr_case) = docket cr_case
   \<and> strip (docket lf_case) = docket lf_case
   \<and> feed_ids (snd (main ex_world [cr_case, lf_case]))
       = Some [py ''2024-1001'', [97, 10, 98, 46, 109, 112, 51],
               [97, 10, 98, 46, 109, 112, 51]]
   \<and> feed_ids cr_world = Some [[97, 13, 98, 46, 109, 112, 51]]
   \<and> strip (docket lf_case) = docket lf_case
   \<and> 13 \<notin> set (docket lf_case)
   \<and> feed_ids (snd (main cr_world [lf_case]))
       = Some [[97, 10, 98, 46, 109, 112, 51], [97, 10, 98, 46, 109, 112, 51]]"
proof -
  have n: "new_cases [ex_new, ex_new] (strip ` set [py ''2024-1001'']) = [ex_new, ex_new]"
    by (simp add: new_cases_def strip_def isspace_def ex_new_def py_def)
  have a: "feed_ids (snd (main ex_world [ex_new, ex_new]))
       = Some [py ''2024-1001'', py ''2024-1002'', py ''2024-1002'']"
    using main_runnable[OF ex_runnable_dup ex_feed_ids] unfolding n
    by (simp add: ex_new_def py_def)
  have b: "distinct [py ''2024-1001'', py '' a.mp3'']" by (simp add: py_def)
  have n3: "new_cases [cr_case, lf_case] (strip ` set [py ''2024-1001''])
              = [cr_case, lf_case]"
    by (simp add: new_cases_def strip_def isspace_def cr_case_def lf_case_def py_def)
  have c: "feed_ids (snd (main ex_world [cr_case, lf_case]))
       = Some [py ''2024-1001'', [97, 10, 98, 46, 109, 112, 51],
               [97, 10, 98, 46, 109, 112, 51]]"
    using main_runnable[OF ex_runnable_cr_lf ex_feed_ids] unfolding n3
    by (simp add: cr_case_def lf_case_def py_def)
  have s: "distinct (map docket [cr_case, lf_case])"
    "strip (docket cr_case) = docket cr_case" "strip (docket lf_case) = docket lf_case"
    "13 \<notin> set (docket lf_case)"
    by (simp_all add: cr_case_def lf_case_def strip_def isspace_def)
  have n4: "new_cases [lf_case] (strip ` set [[97, 13, 98, 46, 109, 112, 51]]) = [lf_case]"
    by (simp add: new_cases_def strip_def isspace_def lf_case_def)
  have d: "feed_ids (snd (main cr_world [lf_case]))
       = Some [[97, 10, 98, 46, 109, 112, 51], [97, 10, 98, 46, 109, 112, 51]]"
    using main_runnable[OF cr_runnable cr_feed_ids] unfolding n4
    by (simp add: lf_case_def)
  show ?thesis using a b c d s ex_feed_ids ex_ws_runs cr_feed_ids by simp
qed

text \<open>
  With the candidates \<^verbatim>\<open>2024-1001\<close> and \<^verbatim>\<open>2024-1002\<close> the feed ends with these two
  identifiers.
\<close>

theorem main_keeps_ids_unique_witness:
  "feed_ids ex_world = Some [py ''2024-1001'']
   \<and> distinct [py ''2024-1001'']
   \<and> 13 \<notin> set (py ''2024-1001'')
   \<and> distinct (map docket [ex_old, ex_new])
   \<and> strip (docket ex_old) = docket ex_old \<and> 13 \<notin> set (docket ex_old)
   \<and> strip (docket ex_new) = docket ex_new \<and> 13 \<notin> set (docket ex_new)
   \<and> feed_ids (snd (main ex_world [ex_old, ex_new])) = Some [py ''2024-1001'', py ''2024-1002'']
   \<and> distinct [py ''2024-1001'', py ''2024-1002'']"
proof -
  have h3: "13 \<notin> set (py ''2024-1001'')" by (simp add: py_def)
  then have h3': "\<forall>g\<in>set [py ''2024-1001'']. 13 \<notin> set g" by simp
  have h4: "distinct (map docket [ex_old, ex_new])"
    by (simp add: ex_old_def ex_new_def py_def)
  have s: "strip (docket ex_old) = docket ex_old" "13 \<notin> set (docket ex_old)"
    "strip (docket ex_new) = docket ex_new" "13 \<notin> set (docket ex_new)"
    by (simp_all add: ex_old_def ex_new_def strip_1001 strip_1002) (simp_all add: py_def)
  then have h5: "\<forall>c\<in>set [ex_old, ex_new]. strip (docket c) = docket c \<and> 13 \<notin> set (docket c)"
    by simp
  have n: "new_cases [ex_old, ex_new] (strip ` set [py ''2024-1001'']) = [ex_new]"
    by (simp add: new_cases_def strip_def isspace_def ex_old_def ex_new_def py_def)
  have h6: "feed_ids (snd (main ex_world [ex_old, ex_new]))
              = Some [py ''2024-1001'', py ''2024-1002'']"
    using main_runnable[OF ex_runnable_pair ex_feed_ids] unfolding n
    by (simp add: ex_new_def py_def)
  have h2: "distinct [py ''2024-1001'']" by simp
  from main_keeps_ids_unique[OF ex_feed_ids h2 h3' h4 h5 h6] ex_feed_ids h2 h3 h4 s h6
  show ?thesis by blast
qed

section \<open>Running twice\<close>

text \<open>
  C3 (amended). When every candidate identifier is non-empty, has no leading or trailing
  whitespace and holds no carriage return, and the first run of \<^verbatim>\<open>main\<close> ends normally,
  then a second run on the same candidates changes nothing: the document and everything
  else are as the first run left them. When the feed parses after the first run, the
  second run ends normally, every candidate's identifier being among the existing
  identifiers; when the first run wrote a character that XML cannot carry, the feed does
  not parse and the second run ends with a \<^verbatim>\<open>ParseError\<close> before it changes anything. For
  every candidate list the claim does not hold: an identifier with surrounding whitespace
  is written verbatim and read back stripped, and an identifier with a carriage return is
  read back with a line feed, so the candidate is not recognised and is appended again by
  every run.
\<close>

theorem main_twice:
  assumes "\<forall>c\<in>set cases. docket c \<noteq> [] \<and> strip (docket c) = docket c
                          \<and> 13 \<notin> set (docket c)"
      and "fst (main w cases) = Inr ()"
  shows "snd (main (snd (main w cases)) cases) = snd (main w cases)
       \<and> (feed_ids (snd (main w cases)) \<noteq> None \<longrightarrow>
            main (snd (main w cases)) cases = (Inr (), snd (main w cases)))
       \<and> (feed_ids (snd (main w cases)) = None \<longrightarrow>
            main (snd (main w cases)) cases = (Inl ParseError, snd (main w cases)))"
proof (cases "load_existing_guids w FEED_PATH")
  case (Inl e)
  then have "main w cases = (Inl e, w)" by (simp add: main_def)
  with assms(2) show ?thesis by simp
next
  case (Inr E)
  then obtain root ch where r: "feed_of w = Some root" "find_child root (py ''channel'') = Some ch"
    by (auto simp: load_existing_guids_def ET_parse_def feed_of_Some
             split: option.splits doc.splits)
  from load_existing_guids_feed[OF r] Inr have E: "E = strip ` set (entry_ids root)" by simp
  let ?todo = "new_cases cases E"
  show ?thesis
  proof (cases "?todo = []")
    case True
    with Inr have "main w cases = (Inr (), w)" by (simp add: main_def)
    with r(1) show ?thesis by (simp add: feed_ids_def)
  next
    case False
    with Inr have m: "main w cases = main_loop w ?todo" by (simp add: main_def)
    obtain res w' where ml: "main_loop w ?todo = (res, w')" by (cases "main_loop w ?todo")
    with m assms(2) have ml': "main_loop w ?todo = (Inr (), w')" by simp
    from main_loop_Inr_feed[OF ml' r False] show ?thesis
    proof
      assume n: "docs w' FEED_PATH = Some NotWellFormed"
      then have "main w' cases = (Inl ParseError, w')"
        by (simp add: main_def load_existing_guids_def ET_parse_def)
      moreover from n have "feed_ids w' = None" by (simp add: feed_ids_def feed_of_def)
      ultimately show ?thesis using m ml' by simp
    next
      assume "\<exists>root'. feed_of w' = Some root'
               \<and> entry_ids root' = map eol_normalize
                    (entry_ids root @ filter (\<lambda>d. d \<noteq> []) (map docket ?todo))
               \<and> find_child root' (py ''channel'') \<noteq> None"
      then obtain root' ch' where r':
        "feed_of w' = Some root'"
        "entry_ids root' = map eol_normalize
           (entry_ids root @ filter (\<lambda>d. d \<noteq> []) (map docket ?todo))"
        "find_child root' (py ''channel'') = Some ch'" by auto
      note l' = load_existing_guids_feed[OF r'(1,3)]
      have "new_cases cases (strip ` set (entry_ids root')) = []"
      proof -
        have "docket c \<in> strip ` set (entry_ids root')" if c: "c \<in> set cases" for c
        proof -
          from assms(1) c have s: "docket c \<noteq> []" "strip (docket c) = docket c"
            "eol_normalize (docket c) = docket c"
            by (auto simp: eol_normalize_id)
          show ?thesis
          proof (cases "docket c \<in> E")
            case True
            with E obtain g where g: "g \<in> set (entry_ids root)" "docket c = strip g" by auto
            from g(1) r'(2) have "eol_normalize g \<in> set (entry_ids root')" by simp
            moreover have "strip (eol_normalize g) = docket c"
              using g(2) s(3) by (simp add: strip_eol_normalize)
            ultimately show ?thesis by force
          next
            case False
            with c have "c \<in> set ?todo" by (simp add: new_cases_def)
            with s(1) have "docket c \<in> set (filter (\<lambda>d. d \<noteq> []) (map docket ?todo))"
              by auto
            then have "eol_normalize (docket c) \<in> set (entry_ids root')"
              unfolding r'(2) by (metis UnI2 image_eqI set_append set_map)
            with s(2,3) show ?thesis by force
          qed
        qed
        then show ?thesis by (simp add: new_cases_def filter_empty_conv)
      qed
      with l' have "main w' cases = (Inr (), w')" by (simp add: main_def)
      with m ml' r'(1) show ?thesis by (simp add: feed_ids_def)
    qed
  qed
qed

text \<open>
  The candidate with the identifier \<^verbatim>\<open>" a.mp3"\<close>: the first run appends it, the second
  run appends it again, so that the feed has one entry more after two runs than after one.
  The same with the identifier \<^verbatim>\<open>"a\rb.mp3"\<close>, which has no surrounding whitespace.
\<close>

theorem main_twice_appends_again:
  "fst (main ex_world [ws_case]) = Inr ()
   \<and> feed_ids (snd (main ex_world [ws_case])) = Some [py ''2024-1001'', py '' a.mp3'']
   \<and> feed_ids (snd (main (snd (main ex_world [ws_case])) [ws_case]))
       = Some [py ''2024-1001'', py '' a.mp3'', py '' a.mp3'']
   \<and> length [py ''2024-1001'', py '' a.mp3'', py '' a.mp3'']
       \<noteq> length [py ''2024-1001'', py '' a.mp3'']
   \<and> docket cr_case \<noteq> [] \<and> strip (docket cr_case) = docket cr_case
   \<and> fst (main ex_world [cr_case]) = Inr ()
   \<and> feed_ids (snd (main ex_world [cr_case]))
       = Some [py ''2024-1001'', [97, 10, 98, 46, 109, 112, 51]]
   \<and> feed_ids (snd (main (snd (main ex_world [cr_case])) [cr_case]))
       = Some [py ''2024-1001'', [97, 10, 98, 46, 109, 112, 51],
               [97, 10, 98, 46, 109, 112, 51]]"
proof -
  have "docket cr_case \<noteq> []" "strip (docket cr_case) = docket cr_case"
    by (simp_all add: cr_case_def strip_def isspace_def)
  with ex_ws_runs ex_cr_runs show ?thesis by simp
qed

text \<open>
  With the candidates \<^verbatim>\<open>2024-1001\<close> and \<^verbatim>\<open>2024-1002\<close> the second run changes
  nothing and ends normally.
\<close>

theorem main_twice_witness:
  "docket ex_old \<noteq> [] \<and> strip (docket ex_old) = docket ex_old \<and> 13 \<notin> set (docket ex_old)
   \<and> docket ex_new \<noteq> [] \<and> strip (docket ex_new) = docket ex_new
   \<and> 13 \<notin> set (docket ex_new)
   \<and> fst (main ex_world [ex_old, ex_new]) = Inr ()
   \<and> feed_ids (snd (main ex_world [ex_old, ex_new]))
       = Some [py ''2024-1001'', py ''2024-1002'']
   \<and> snd (main (snd (main ex_world [ex_old, ex_new])) [ex_old, ex_new])
       = snd (main ex_world [ex_old, ex_new])
   \<and> main (snd (main ex_world [ex_old, ex_new])) [ex_old, ex_new]
       = (Inr (), snd (main ex_world [ex_old, ex_new]))"
proof -
  have s: "docket ex_old \<noteq> []" "strip (docket ex_old) = docket ex_old"
    "13 \<notin> set (docket ex_old)"
    "docket ex_new \<noteq> []" "strip (docket ex_new) = docket ex_new"
    "13 \<notin> set (docket ex_new)"
    by (simp_all add: ex_old_def ex_new_def strip_def isspace_def py_def)
  then have h1: "\<forall>c\<in>set [ex_old, ex_new]. docket c \<noteq> [] \<and> strip (docket c) = docket c
                    \<and> 13 \<notin> set (docket c)"
    by simp
  note r = main_runnable[OF ex_runnable_pair ex_feed_ids]
  have h2: "fst (main ex_world [ex_old, ex_new]) = Inr ()"
    using r by simp
  have n: "new_cases [ex_old, ex_new] (strip ` set [py ''2024-1001'']) = [ex_new]"
    by (simp add: new_cases_def strip_def isspace_def ex_old_def ex_new_def py_def)
  have i: "feed_ids (snd (main ex_world [ex_old, ex_new]))
              = Some [py ''2024-1001'', py ''2024-1002'']"
    using r unfolding n by (simp add: ex_new_def py_def)
  then have i': "feed_ids (snd (main ex_world [ex_old, ex_new])) \<noteq> None" by simp
  note t = main_twice[OF h1 h2]
  from t[THEN conjunct1] t[THEN conjunct2, THEN conjunct1] i' s h2 i
  show ?thesis by blast
qed

section \<open>What \<^verbatim>\<open>add_item_to_feed\<close> appends\<close>

lemma parsed_text_Some: "t \<noteq> [] \<Longrightarrow> parsed_text (Some t) = Some (eol_normalize t)"
  by (simp add: parsed_text_def)

lemma parsed_back_new_item:
  "parsed_back (new_item c f s) =
     Element (py ''item'') [] None None
       [Element (py ''title'') []
          (Some (eol_normalize (docket c @ [32, 8211, 32] @ title c))) None [],
        Element (py ''enclosure'')
          [(py ''url'', PODCAST_BASE_URL @ py ''/'' @ f),
           (py ''length'', str_int s),
           (py ''type'', py ''audio/mpeg'')] None None [],
        Element (py ''guid'') [(py ''isPermaLink'', py ''false'')]
          (parsed_text (Some (docket c))) None [],
        Element (py ''pubDate'') [] (parsed_text (Some (format_datetime (date c)))) None [],
        Element (py ''description'') []
          (Some (eol_normalize
             (py ''Oral argument for docket '' @ docket c @ py '': '' @ title c @ py ''.'')))
          None [],
        Element (py ''{http://www.itunes.com/dtds/podcast-1.0.dtd}explicit'') []
          (Some (py ''no'')) None []]"
proof -
  have "eol_normalize (py ''no'') = py ''no''" by (simp add: py_def)
  moreover have "py ''no'' \<noteq> []" "py ''Oral argument for docket '' \<noteq> []"
    by (simp_all add: py_def)
  ultimately show ?thesis
    by (simp add: new_item_def parsed_text_Some) (simp add: parsed_text_def)
qed

text \<open>
  C4 (amended). For a feed file that parses, has a channel and can be written,
  \<^verbatim>\<open>add_item_to_feed\<close> returns normally and writes the document with exactly one new
  \<^verbatim>\<open>item\<close> as the last child of the channel. The new item has the children title
  (identifier, en dash, title), enclosure (url = base URL, slash, local file name; length =
  the decimal size; type audio/mpeg), guid (isPermaLink false, the identifier verbatim),
  pubDate (RFC 2822), description and the explicit flag \<^verbatim>\<open>no\<close>. What is written is
  well-formed exactly when the document, the identifier, the title, the file name and the
  date string consist of characters that XML can carry. Then the file parses, its entries
  are the old ones followed by the new one, each as it is read back (attributes as
  written, line ends in texts turned into line feeds), their number has grown by one, and
  \<^verbatim>\<open>load_existing_guids\<close> returns the former identifiers and, when the candidate's
  identifier is non-empty, that identifier, all read back and stripped; it contains the
  candidate's identifier itself when this is non-empty, has no leading or trailing
  whitespace and holds no carriage return. Otherwise the file does not parse and
  \<^verbatim>\<open>load_existing_guids\<close> raises \<^verbatim>\<open>ParseError\<close>. For every candidate the last part of the
  claim does not hold.
\<close>

theorem add_item_to_feed_appends:
  assumes "docs w p = Some (WellFormed root)"
      and "find_child root (py ''channel'') = Some ch"
      and "fault w p = NoFault"
  shows "fst (add_item_to_feed w p c f s) = Inr ()
    \<and> docs (snd (add_item_to_feed w p c f s)) p
        = Some (write_parse (with_item root (new_item c f s)))
    \<and> find_child (with_item root (new_item c f s)) (py ''channel'')
        = Some (Element (tag ch) (attrib ch) (etext ch) (etail ch)
                  (children ch @ [new_item c f s]))
    \<and> entries (with_item root (new_item c f s)) = entries root @ [new_item c f s]
    \<and> new_item c f s =
        Element (py ''item'') [] None None
         [Element (py ''title'') [] (Some (docket c @ [32, 8211, 32] @ title c)) None [],
          Element (py ''enclosure'')
            [(py ''url'', PODCAST_BASE_URL @ py ''/'' @ f),
             (py ''length'', str_int s),
             (py ''type'', py ''audio/mpeg'')] None None [],
          Element (py ''guid'') [(py ''isPermaLink'', py ''false'')] (Some (docket c)) None [],
          Element (py ''pubDate'') [] (Some (format_datetime (date c))) None [],
          Element (py ''description'') []
            (Some (py ''Oral argument for docket '' @ docket c @ py '': '' @ title c @ py ''.''))
            None [],
          Element (py ''{http://www.itunes.com/dtds/podcast-1.0.dtd}explicit'') []
            (Some (py ''no'')) None []]
    \<and> (well_formed_xml (with_item root (new_item c f s))
         \<longleftrightarrow> well_formed_xml root \<and> xml_str (docket c) \<and> xml_str (title c) \<and> xml_str f
             \<and> xml_str (format_datetime (date c)))
    \<and> (well_formed_xml (with_item root (new_item c f s)) \<longrightarrow>
         (\<exists>root'. docs (snd (add_item_to_feed w p c f s)) p = Some (WellFormed root')
            \<and> entries root' = map parsed_back (entries root) @ [parsed_back (new_item c f s)]
            \<and> length (entries root') = length (entries root) + 1)
         \<and> load_existing_guids (snd (add_item_to_feed w p c f s)) p
             = Inr (strip ` eol_normalize ` set (entry_ids root)
                    \<union> (if docket c = [] then {} else {strip (eol_normalize (docket c))})))
    \<and> (\<not> well_formed_xml (with_item root (new_item c f s)) \<longrightarrow>
         docs (snd (add_item_to_feed w p c f s)) p = Some NotWellFormed
         \<and> load_existing_guids (snd (add_item_to_feed w p c f s)) p = Inl ParseError)
    \<and> (well_formed_xml (with_item root (new_item c f s))
         \<and> docket c \<noteq> [] \<and> strip (docket c) = docket c \<and> 13 \<notin> set (docket c) \<longrightarrow>
         (\<exists>E. load_existing_guids (snd (add_item_to_feed w p c f s)) p = Inr E
              \<and> docket c \<in> E))
    \<and> parsed_back (new_item c f s) =
        Element (py ''item'') [] None None
         [Element (py ''title'') []
            (Some (eol_normalize (docket c @ [32, 8211, 32] @ title c))) None [],
          Element (py ''enclosure'')
            [(py ''url'', PODCAST_BASE_URL @ py ''/'' @ f),
             (py ''length'', str_int s),
             (py ''type'', py ''audio/mpeg'')] None None [],
          Element (py ''guid'') [(py ''isPermaLink'', py ''false'')]
            (parsed_text (Some (docket c))) None [],
          Element (py ''pubDate'') [] (parsed_text (Some (format_datetime (date c)))) None [],
          Element (py ''description'') []
            (Some (eol_normalize
               (py ''Oral argument for docket '' @ docket c @ py '': '' @ title c @ py ''.'')))
            None [],
          Element (py ''{http://www.itunes.com/dtds/podcast-1.0.dtd}explicit'') []
            (Some (py ''no'')) None []]"
proof -
  let ?new = "new_item c f s"
  let ?t = "with_item root ?new"
  let ?w' = "snd (add_item_to_feed w p c f s)"
  note ok = add_item_to_feed_ok[OF assms, of c f s]
  have f: "fst (add_item_to_feed w p c f s) = Inr ()" by (simp add: ok)
  have d: "docs ?w' p = Some (write_parse ?t)" by (simp add: ok)
  note fc = find_child_with_item[OF assms(2), of ?new]
  note en = entries_with_item[OF assms(2) tag_new_item, of c f s]
  have n: "?new = Element (py ''item'') [] None None
         [Element (py ''title'') [] (Some (docket c @ [32, 8211, 32] @ title c)) None [],
          Element (py ''enclosure'')
            [(py ''url'', PODCAST_BASE_URL @ py ''/'' @ f),
             (py ''length'', str_int s),
             (py ''type'', py ''audio/mpeg'')] None None [],
          Element (py ''guid'') [(py ''isPermaLink'', py ''false'')] (Some (docket c)) None [],
          Element (py ''pubDate'') [] (Some (format_datetime (date c))) None [],
          Element (py ''description'') []
            (Some (py ''Oral argument for docket '' @ docket c @ py '': '' @ title c @ py ''.''))
            None [],
          Element (py ''{http://www.itunes.com/dtds/podcast-1.0.dtd}explicit'') []
            (Some (py ''no'')) None []]"
    by (simp add: new_item_def)
  have wf: "well_formed_xml ?t
         \<longleftrightarrow> well_formed_xml root \<and> xml_str (docket c) \<and> xml_str (title c) \<and> xml_str f
             \<and> xml_str (format_datetime (date c))"
    by (simp add: well_formed_with_item[OF assms(2)] well_formed_new_item)
  have good: "(\<exists>root'. docs ?w' p = Some (WellFormed root')
            \<and> entries root' = map parsed_back (entries root) @ [parsed_back ?new]
            \<and> length (entries root') = length (entries root) + 1)
         \<and> load_existing_guids ?w' p
             = Inr (strip ` eol_normalize ` set (entry_ids root)
                    \<union> (if docket c = [] then {} else {strip (eol_normalize (docket c))}))"
    if w: "well_formed_xml ?t"
  proof -
    from d w have "docs ?w' p = Some (WellFormed (parsed_back ?t))"
      by (simp add: write_parse_def)
    moreover note entries_written[OF assms(2) tag_new_item, of c f s]
    moreover have "length (entries (parsed_back ?t)) = length (entries root) + 1"
      by (simp add: entries_written[OF assms(2) tag_new_item])
    ultimately show ?thesis using load_after_add[OF assms w] by blast
  qed
  have bad: "docs ?w' p = Some NotWellFormed \<and> load_existing_guids ?w' p = Inl ParseError"
    if w: "\<not> well_formed_xml ?t"
    using d w load_after_bad_add[OF assms w] by (simp add: write_parse_def)
  have m: "\<exists>E. load_existing_guids ?w' p = Inr E \<and> docket c \<in> E"
    if "well_formed_xml ?t \<and> docket c \<noteq> [] \<and> strip (docket c) = docket c
        \<and> 13 \<notin> set (docket c)"
    using good that by (simp add: eol_normalize_id)
  note pb = parsed_back_new_item[of c f s]
  from f d fc en n wf good bad m pb show ?thesis by blast
qed

text \<open>
  The candidate with the identifier \<^verbatim>\<open>" a.mp3"\<close> is not among the existing identifiers;
  after it was appended, the identifiers read back are \<^verbatim>\<open>2024-1001\<close> and \<^verbatim>\<open>a.mp3\<close>,
  not \<^verbatim>\<open>" a.mp3"\<close>. After the candidate \<^verbatim>\<open>"a\rb.mp3"\<close> was appended they are
  \<^verbatim>\<open>2024-1001\<close> and \<^verbatim>\<open>"a\nb.mp3"\<close>. After the candidate with a form feed in its identifier
  was appended, the feed does not parse.
\<close>

theorem add_item_to_feed_ws_identifier:
  "load_existing_guids ex_world FEED_PATH = Inr {py ''2024-1001''}
   \<and> docket ws_case \<notin> {py ''2024-1001''}
   \<and> fst (add_item_to_feed ex_world FEED_PATH ws_case (py '' a.mp3.mp3'') 2) = Inr ()
   \<and> load_existing_guids
        (snd (add_item_to_feed ex_world FEED_PATH ws_case (py '' a.mp3.mp3'') 2)) FEED_PATH
       = Inr {py ''2024-1001'', py ''a.mp3''}
   \<and> docket ws_case \<notin> {py ''2024-1001'', py ''a.mp3''}
   \<and> docket cr_case \<notin> {py ''2024-1001''}
   \<and> fst (add_item_to_feed ex_world FEED_PATH cr_case (docket cr_case @ py ''.mp3'') 1)
       = Inr ()
   \<and> load_existing_guids
        (snd (add_item_to_feed ex_world FEED_PATH cr_case (docket cr_case @ py ''.mp3'') 1))
        FEED_PATH
       = Inr {py ''2024-1001'', [97, 10, 98, 46, 109, 112, 51]}
   \<and> docket cr_case \<notin> {py ''2024-1001'', [97, 10, 98, 46, 109, 112, 51]}
   \<and> docket ff_case \<notin> {py ''2024-1001''}
   \<and> fst (add_item_to_feed ex_world FEED_PATH ff_case (docket ff_case @ py ''.mp3'') 1)
       = Inr ()
   \<and> load_existing_guids
        (snd (add_item_to_feed ex_world FEED_PATH ff_case (docket ff_case @ py ''.mp3'') 1))
        FEED_PATH
       = Inl ParseError"
proof -
  have l0: "load_existing_guids ex_world FEED_PATH = Inr {py ''2024-1001''}"
    using load_existing_guids_Inr[OF ex_docs ex_chan] by (simp add: ex_ids strip_1001)
  have n: "docket ws_case \<notin> {py ''2024-1001''}"
    "docket ws_case \<notin> {py ''2024-1001'', py ''a.mp3''}"
    "docket cr_case \<notin> {py ''2024-1001''}"
    "docket cr_case \<notin> {py ''2024-1001'', [97, 10, 98, 46, 109, 112, 51]}"
    "docket ff_case \<notin> {py ''2024-1001''}"
    by (simp_all add: ws_case_def cr_case_def ff_case_def py_def)
  have f: "fst (add_item_to_feed ex_world FEED_PATH c g s) = Inr ()" for c g s
    by (simp add: add_item_to_feed_ok[OF ex_docs ex_chan ex_fault])
  have w1: "well_formed_xml (with_item ex_root (new_item ws_case (py '' a.mp3.mp3'') 2))"
    using ex_case_xml(3)
    by (simp add: well_formed_with_item[OF ex_chan] well_formed_new_item ex_well_formed
                  case_xml_def)
       (simp add: py_def xml_char_def)
  have l1: "load_existing_guids
        (snd (add_item_to_feed ex_world FEED_PATH ws_case (py '' a.mp3.mp3'') 2)) FEED_PATH
       = Inr {py ''2024-1001'', py ''a.mp3''}"
    unfolding load_after_add[OF ex_docs ex_chan ex_fault w1] ex_ids
    by (simp add: ws_case_def strip_def isspace_def py_def insert_commute)
  have w2: "well_formed_xml
              (with_item ex_root (new_item cr_case (docket cr_case @ py ''.mp3'') 1))"
    using ex_case_xml(4)
    by (simp add: well_formed_with_item[OF ex_chan] well_formed_new_item ex_well_formed
                  case_xml_def xml_str_mp3)
  have l2: "load_existing_guids
        (snd (add_item_to_feed ex_world FEED_PATH cr_case (docket cr_case @ py ''.mp3'') 1))
        FEED_PATH
       = Inr {py ''2024-1001'', [97, 10, 98, 46, 109, 112, 51]}"
    unfolding load_after_add[OF ex_docs ex_chan ex_fault w2] ex_ids
    by (simp add: cr_case_def strip_def isspace_def py_def insert_commute)
  have w3: "\<not> well_formed_xml
              (with_item ex_root (new_item ff_case (docket ff_case @ py ''.mp3'') 1))"
    using ff_case_not_xml
    by (simp add: well_formed_with_item[OF ex_chan] well_formed_new_item)
  note l3 = load_after_bad_add[OF ex_docs ex_chan ex_fault w3]
  from l0 n f l1 l2 l3 show ?thesis by simp
qed

text \<open>Appending \<^verbatim>\<open>2024-1002\<close> of 1 March 2024 to the example feed.\<close>

theorem add_item_to_feed_appends_witness:
  "docs ex_world FEED_PATH = Some (WellFormed ex_root)
   \<and> find_child ex_root (py ''channel'') = Some ex_channel
   \<and> fault ex_world FEED_PATH = NoFault
   \<and> well_formed_xml (with_item ex_root (new_item ex_new (py ''2024-1002.mp3'') 3))
   \<and> docket ex_new \<noteq> [] \<and> strip (docket ex_new) = docket ex_new
   \<and> 13 \<notin> set (docket ex_new)
   \<and> fst (add_item_to_feed ex_world FEED_PATH ex_new (py ''2024-1002.mp3'') 3) = Inr ()
   \<and> entries (with_item ex_root (new_item ex_new (py ''2024-1002.mp3'') 3))
       = entries ex_root @ [new_item ex_new (py ''2024-1002.mp3'') 3]
   \<and> load_existing_guids
        (snd (add_item_to_feed ex_world FEED_PATH ex_new (py ''2024-1002.mp3'') 3)) FEED_PATH
       = Inr {py ''2024-1001'', py ''2024-1002''}
   \<and> docket ex_new \<in> {py ''2024-1001'', py ''2024-1002''}
   \<and> child_text (new_item ex_new (py ''2024-1002.mp3'') 3) (py ''pubDate'')
       = Some (py ''Fri, 01 Mar 2024 00:00:00 -0000'')"
proof -
  note t = add_item_to_feed_appends[OF ex_docs ex_chan ex_fault,
             of ex_new "py ''2024-1002.mp3''" 3]
  have d: "docket ex_new = py ''2024-1002''" by (simp add: ex_new_def)
  have ne: "py ''2024-1002'' \<noteq> []" "13 \<notin> set (py ''2024-1002'')" by (simp_all add: py_def)
  have s: "docket ex_new \<noteq> []" "strip (docket ex_new) = docket ex_new"
    "13 \<notin> set (docket ex_new)" "docket ex_new \<in> {py ''2024-1001'', py ''2024-1002''}"
    using ne by (simp_all add: d strip_1002)
  have w: "well_formed_xml (with_item ex_root (new_item ex_new (py ''2024-1002.mp3'') 3))"
    using ex_case_xml(2)
    by (simp add: well_formed_with_item[OF ex_chan] well_formed_new_item ex_well_formed
                  case_xml_def)
       (simp add: py_def xml_char_def)
  have e: "eol_normalize (py ''2024-1001'') = py ''2024-1001''"
    "eol_normalize (py ''2024-1002'') = py ''2024-1002''"
    by (simp_all add: py_def)
  from t w have l: "load_existing_guids
        (snd (add_item_to_feed ex_world FEED_PATH ex_new (py ''2024-1002.mp3'') 3)) FEED_PATH
       = Inr {py ''2024-1001'', py ''2024-1002''}"
    by (simp add: ex_ids d ne e strip_1001 strip_1002 insert_commute)
  have p: "child_text (new_item ex_new (py ''2024-1002.mp3'') 3) (py ''pubDate'')
       = Some (format_datetime (date ex_new))"
    by (simp add: child_text_def new_item_def find_child_def py_def)
  have "date ex_new = ex_date" by (simp add: ex_new_def)
  with p ex_pubdate have p': "child_text (new_item ex_new (py ''2024-1002.mp3'') 3) (py ''pubDate'')
       = Some (py ''Fri, 01 Mar 2024 00:00:00 -0000'')" by simp
  from t[THEN conjunct1] t[THEN conjunct2, THEN conjunct2, THEN conjunct2, THEN conjunct1]
       l p' ex_docs ex_chan ex_fault w s
  show ?thesis by blast
qed

section \<open>What \<^verbatim>\<open>add_item_to_feed\<close> leaves alone\<close>

lemma map_parsed_back_append_id:
  "map parsed_back (xs @ y # zs) = xs @ y # zs
     \<longleftrightarrow> map parsed_back xs = xs \<and> parsed_back y = y \<and> map parsed_back zs = zs"
  by (simp add: append_eq_append_conv)

lemma parsed_back_fixed:
  "parsed_back e = e \<longleftrightarrow>
     parsed_text (etext e) = etext e \<and> parsed_text (etail e) = etail e
     \<and> map parsed_back (children e) = children e"
  by (cases e) simp

lemma find_append_Some:
  "List.find P xs = Some e \<Longrightarrow> List.find P (xs @ ys) = Some e"
  by (induction xs) (auto split: if_splits)

lemma feed_channel_text_written:
  assumes "docs w FEED_PATH = Some (WellFormed (parsed_back (with_item root new)))"
      and "find_child root (py ''channel'') = Some ch"
      and "find_child ch t = Some e"
  shows "feed_channel_text w t = parsed_text (etext e)"
proof -
  let ?x = "Element (tag ch) (attrib ch) (etext ch) (etail ch) (children ch @ [new])"
  have "find_child ?x t = Some e"
    using assms(3) by (simp add: find_child_def find_append_Some)
  then have "child_text (parsed_back ?x) t = parsed_text (etext e)"
    unfolding child_text_def find_child_parsed_back by simp
  moreover have "find_child (parsed_back (with_item root new)) (py ''channel'')
                   = Some (parsed_back ?x)"
    unfolding find_child_parsed_back find_child_with_item[OF assms(2)] by simp
  ultimately show ?thesis
    using assms(1) by (simp add: feed_channel_text_def feed_of_def)
qed

text \<open>
  C5 (amended). When \<^verbatim>\<open>add_item_to_feed\<close> returns normally and what it wrote is
  well-formed, the document read back has the root's tag and attributes and the root's
  children in their order, with only the first \<^verbatim>\<open>channel\<close> child changed, and that child
  keeps its tag and attributes and all its children (metadata and entries) in their
  order, followed by the new item. No element is dropped or moved, but every element is
  kept as the parser reads it back: its tag, attributes and children are the same, while
  in its text and tail a carriage return, alone or before a line feed, has become a line
  feed, and an empty string has become \<^verbatim>\<open>None\<close>. A document that is read back as it is,
  such as one that this program wrote, keeps all its elements unchanged, and the document
  that results is of this kind. When what was written is not well-formed, because the
  document or the new entry holds a character that XML cannot carry, the file no longer
  parses. No other file and nothing else of the state is touched.
\<close>

theorem add_item_to_feed_frame:
  assumes "add_item_to_feed w p c f s = (Inr u, w')"
      and "docs w p = Some (WellFormed root)"
  shows "\<exists>ch pre post.
      find_child root (py ''channel'') = Some ch
    \<and> children root = pre @ ch # post
    \<and> (\<forall>x\<in>set pre. tag x \<noteq> py ''channel'')
    \<and> docs w' p = Some (write_parse (with_item root (new_item c f s)))
    \<and> (well_formed_xml (with_item root (new_item c f s)) \<longrightarrow>
        (\<exists>root'. docs w' p = Some (WellFormed root')
          \<and> tag root' = tag root \<and> attrib root' = attrib root
          \<and> etext root' = parsed_text (etext root)
          \<and> children root'
              = map parsed_back pre
                @ Element (tag ch) (attrib ch) (parsed_text (etext ch)) (parsed_text (etail ch))
                    (map parsed_back (children ch) @ [parsed_back (new_item c f s)])
                # map parsed_back post
          \<and> entries root' = map parsed_back (entries root) @ [parsed_back (new_item c f s)]
          \<and> (parsed_back root = root \<longrightarrow>
                children root'
                  = pre @ Element (tag ch) (attrib ch) (etext ch) (etail ch)
                            (children ch @ [parsed_back (new_item c f s)]) # post
                \<and> entries root' = entries root @ [parsed_back (new_item c f s)])
          \<and> parsed_back root' = root'))
    \<and> (\<not> well_formed_xml (with_item root (new_item c f s)) \<longrightarrow>
         docs w' p = Some NotWellFormed)
    \<and> (\<forall>q. q \<noteq> p \<longrightarrow> docs w' q = docs w q)
    \<and> assets w' = assets w \<and> remote w' = remote w \<and> gets w' = gets w
    \<and> fault w' = fault w"
proof -
  let ?new = "new_item c f s"
  let ?t = "with_item root ?new"
  from add_item_to_feed_Inr[OF assms(1)] assms(2) obtain ch where
    ch: "find_child root (py ''channel'') = Some ch"
    and w': "w' = w\<lparr>docs := (docs w)(p \<mapsto> write_parse ?t)\<rparr>"
    by auto
  from ch have "List.find (\<lambda>x. tag x = py ''channel'') (children root) = Some ch"
    by (simp add: find_child_def)
  from find_split[OF this] obtain pre post where
    sp: "children root = pre @ ch # post" "\<forall>y\<in>set pre. tag y \<noteq> py ''channel''"
        "tag ch = py ''channel''"
    by blast
  have c': "children ?t
        = pre @ Element (tag ch) (attrib ch) (etext ch) (etail ch) (children ch @ [?new]) # post"
    by (simp add: with_item_def sp(1) append_to_first_split[OF sp(2,3)])
  let ?r' = "parsed_back ?t"
  have cr: "children ?r'
              = map parsed_back pre
                @ Element (tag ch) (attrib ch) (parsed_text (etext ch)) (parsed_text (etail ch))
                    (map parsed_back (children ch) @ [parsed_back ?new])
                # map parsed_back post"
    by (simp add: c')
  have er: "entries ?r' = map parsed_back (entries root) @ [parsed_back ?new]"
    by (rule entries_written[OF ch tag_new_item])
  have fx: "children ?r'
                  = pre @ Element (tag ch) (attrib ch) (etext ch) (etail ch)
                            (children ch @ [parsed_back ?new]) # post
                \<and> entries ?r' = entries root @ [parsed_back ?new]"
    if fixed: "parsed_back root = root"
  proof -
    from fixed have "map parsed_back (children root) = children root"
      by (simp add: parsed_back_fixed)
    then have m: "map parsed_back pre = pre" "parsed_back ch = ch" "map parsed_back post = post"
      unfolding sp(1) map_parsed_back_append_id by simp_all
    from m(2) have k: "parsed_text (etext ch) = etext ch" "parsed_text (etail ch) = etail ch"
      "map parsed_back (children ch) = children ch"
      by (simp_all add: parsed_back_fixed)
    have "map parsed_back (entries root) = entries root"
      using entries_parsed_back[of root] fixed by simp
    with cr er m k show ?thesis by simp
  qed
  have good: "\<exists>root'. docs w' p = Some (WellFormed root')
          \<and> tag root' = tag root \<and> attrib root' = attrib root
          \<and> etext root' = parsed_text (etext root)
          \<and> children root'
              = map parsed_back pre
                @ Element (tag ch) (attrib ch) (parsed_text (etext ch)) (parsed_text (etail ch))
                    (map parsed_back (children ch) @ [parsed_back ?new])
                # map parsed_back post
          \<and> entries root' = map parsed_back (entries root) @ [parsed_back ?new]
          \<and> (parsed_back root = root \<longrightarrow>
                children root'
                  = pre @ Element (tag ch) (attrib ch) (etext ch) (etail ch)
                            (children ch @ [parsed_back ?new]) # post
                \<and> entries root' = entries root @ [parsed_back ?new])
          \<and> parsed_back root' = root'"
    if w: "well_formed_xml ?t"
  proof -
    from w w' have "docs w' p = Some (WellFormed ?r')" by (simp add: write_parse_def)
    moreover have "tag ?r' = tag root" "attrib ?r' = attrib root"
      "etext ?r' = parsed_text (etext root)"
      by (simp_all add: with_item_def)
    moreover have "parsed_back ?r' = ?r'" by (rule parsed_back_idem)
    ultimately show ?thesis using cr er fx by blast
  qed
  have bad: "docs w' p = Some NotWellFormed" if "\<not> well_formed_xml ?t"
    using that w' by (simp add: write_parse_def)
  have d: "docs w' p = Some (write_parse ?t)" using w' by simp
  have rest: "(\<forall>q. q \<noteq> p \<longrightarrow> docs w' q = docs w q)
    \<and> assets w' = assets w \<and> remote w' = remote w \<and> gets w' = gets w
    \<and> fault w' = fault w"
    using w' by simp
  from ch sp(1,2) d good bad rest show ?thesis by blast
qed

text \<open>
  A feed whose channel description holds a carriage return before a line feed: after one
  append the description is read back without the carriage return. And the candidate with
  a form feed in its identifier: the append returns normally, and the feed, which held
  the entry \<^verbatim>\<open>2024-1001\<close>, no longer parses.
\<close>

theorem add_item_to_feed_changes_text:
  "feed_channel_text cr_world (py ''description'')
     = Some [108, 105, 110, 101, 49, 13, 10, 108, 105, 110, 101, 50]
   \<and> fst (add_item_to_feed cr_world FEED_PATH ex_new (py ''2024-1002.mp3'') 3) = Inr ()
   \<and> feed_channel_text
        (snd (add_item_to_feed cr_world FEED_PATH ex_new (py ''2024-1002.mp3'') 3))
        (py ''description'')
     = Some [108, 105, 110, 101, 49, 10, 108, 105, 110, 101, 50]
   \<and> feed_ids ex_world = Some [py ''2024-1001'']
   \<and> fst (add_item_to_feed ex_world FEED_PATH ff_case (docket ff_case @ py ''.mp3'') 1)
       = Inr ()
   \<and> docs (snd (add_item_to_feed ex_world FEED_PATH ff_case (docket ff_case @ py ''.mp3'') 1))
        FEED_PATH = Some NotWellFormed
   \<and> feed_ids (snd (add_item_to_feed ex_world FEED_PATH ff_case
                      (docket ff_case @ py ''.mp3'') 1)) = None"
proof -
  obtain ch where ch: "find_child cr_root (py ''channel'') = Some ch"
    using cr_chan by auto
  then have chd: "ch = Element (py ''channel'') [] None None
        [Element (py ''description'') []
           (Some [108, 105, 110, 101, 49, 13, 10, 108, 105, 110, 101, 50]) None [],
         Element (py ''item'') [] None None
           [Element (py ''guid'') [] (Some [97, 13, 98, 46, 109, 112, 51]) None []]]"
    by (simp add: find_child_def cr_root_def)
  have de: "find_child ch (py ''description'')
        = Some (Element (py ''description'') []
           (Some [108, 105, 110, 101, 49, 13, 10, 108, 105, 110, 101, 50]) None [])"
    unfolding chd by (simp add: find_child_def)
  have a: "feed_channel_text cr_world (py ''description'')
     = Some [108, 105, 110, 101, 49, 13, 10, 108, 105, 110, 101, 50]"
    using ch de by (simp add: feed_channel_text_def feed_of_def cr_docs child_text_def)
  let ?new = "new_item ex_new (py ''2024-1002.mp3'') 3"
  have w: "well_formed_xml (with_item cr_root ?new)"
    using ex_case_xml(2)
    by (simp add: well_formed_with_item[OF ch] well_formed_new_item cr_well_formed
                  case_xml_def)
       (simp add: py_def xml_char_def)
  note ok = add_item_to_feed_ok[OF cr_docs ch cr_fault, of ex_new "py ''2024-1002.mp3''" 3]
  have d: "docs (snd (add_item_to_feed cr_world FEED_PATH ex_new (py ''2024-1002.mp3'') 3))
             FEED_PATH = Some (WellFormed (parsed_back (with_item cr_root ?new)))"
    using w by (simp add: ok write_parse_def)
  have b: "feed_channel_text
        (snd (add_item_to_feed cr_world FEED_PATH ex_new (py ''2024-1002.mp3'') 3))
        (py ''description'')
     = Some [108, 105, 110, 101, 49, 10, 108, 105, 110, 101, 50]"
    unfolding feed_channel_text_written[OF d ch de] by (simp add: parsed_text_def)
  have f1: "fst (add_item_to_feed cr_world FEED_PATH ex_new (py ''2024-1002.mp3'') 3) = Inr ()"
    by (simp add: ok)
  have w3: "\<not> well_formed_xml
              (with_item ex_root (new_item ff_case (docket ff_case @ py ''.mp3'') 1))"
    using ff_case_not_xml
    by (simp add: well_formed_with_item[OF ex_chan] well_formed_new_item)
  note ok3 = add_item_to_feed_ok[OF ex_docs ex_chan ex_fault,
               of ff_case "docket ff_case @ py ''.mp3''" 1]
  have c: "fst (add_item_to_feed ex_world FEED_PATH ff_case (docket ff_case @ py ''.mp3'') 1)
       = Inr ()"
    "docs (snd (add_item_to_feed ex_world FEED_PATH ff_case (docket ff_case @ py ''.mp3'') 1))
        FEED_PATH = Some NotWellFormed"
    "feed_ids (snd (add_item_to_feed ex_world FEED_PATH ff_case
                      (docket ff_case @ py ''.mp3'') 1)) = None"
    using w3 by (simp_all add: ok3 write_parse_def feed_ids_def)
  from a f1 b ex_feed_ids c show ?thesis by simp
qed

text \<open>Appending \<^verbatim>\<open>2024-1002\<close> to the example feed.\<close>

theorem add_item_to_feed_frame_witness:
  "add_item_to_feed ex_world FEED_PATH ex_new (py ''2024-1002.mp3'') 3
     = (Inr (), snd (add_item_to_feed ex_world FEED_PATH ex_new (py ''2024-1002.mp3'') 3))
   \<and> docs ex_world FEED_PATH = Some (WellFormed ex_root)
   \<and> well_formed_xml (with_item ex_root (new_item ex_new (py ''2024-1002.mp3'') 3))
   \<and> parsed_back ex_root = ex_root
   \<and> children ex_root = [] @ ex_channel # []
   \<and> (\<exists>root'.
      docs (snd (add_item_to_feed ex_world FEED_PATH ex_new (py ''2024-1002.mp3'') 3)) FEED_PATH
        = Some (WellFormed root')
    \<and> tag root' = tag ex_root \<and> attrib root' = attrib ex_root
    \<and> children root'
        = [Element (tag ex_channel) (attrib ex_channel) (etext ex_channel) (etail ex_channel)
             (children ex_channel
                @ [parsed_back (new_item ex_new (py ''2024-1002.mp3'') 3)])]
    \<and> entries root'
        = entries ex_root @ [parsed_back (new_item ex_new (py ''2024-1002.mp3'') 3)])
   \<and> assets (snd (add_item_to_feed ex_world FEED_PATH ex_new (py ''2024-1002.mp3'') 3))
        = assets ex_world
   \<and> gets (snd (add_item_to_feed ex_world FEED_PATH ex_new (py ''2024-1002.mp3'') 3))
        = gets ex_world"
proof -
  let ?a = "add_item_to_feed ex_world FEED_PATH ex_new (py ''2024-1002.mp3'') 3"
  let ?new = "new_item ex_new (py ''2024-1002.mp3'') 3"
  have h1: "?a = (Inr (), snd ?a)"
    by (simp add: add_item_to_feed_ok[OF ex_docs ex_chan ex_fault])
  have w: "well_formed_xml (with_item ex_root ?new)"
    using ex_case_xml(2)
    by (simp add: well_formed_with_item[OF ex_chan] well_formed_new_item ex_well_formed
                  case_xml_def)
       (simp add: py_def xml_char_def)
  have fx: "parsed_back ex_root = ex_root"
    by (simp add: ex_root_def ex_channel_def ex_item_def parsed_text_def py_def)
  have cs: "children ex_root = [] @ ex_channel # []" by (simp add: ex_root_def)
  from add_item_to_feed_frame[OF h1 ex_docs] obtain ch pre post where t:
    "find_child ex_root (py ''channel'') = Some ch"
    "children ex_root = pre @ ch # post"
    "well_formed_xml (with_item ex_root ?new) \<longrightarrow>
        (\<exists>root'. docs (snd ?a) FEED_PATH = Some (WellFormed root')
          \<and> tag root' = tag ex_root \<and> attrib root' = attrib ex_root
          \<and> etext root' = parsed_text (etext ex_root)
          \<and> children root'
              = map parsed_back pre
                @ Element (tag ch) (attrib ch) (parsed_text (etext ch)) (parsed_text (etail ch))
                    (map parsed_back (children ch) @ [parsed_back ?new])
                # map parsed_back post
          \<and> entries root' = map parsed_back (entries ex_root) @ [parsed_back ?new]
          \<and> (parsed_back ex_root = ex_root \<longrightarrow>
                children root'
                  = pre @ Element (tag ch) (attrib ch) (etext ch) (etail ch)
                            (children ch @ [parsed_back ?new]) # post
                \<and> entries root' = entries ex_root @ [parsed_back ?new])
          \<and> parsed_back root' = root')"
    "assets (snd ?a) = assets ex_world" "gets (snd ?a) = gets ex_world"
    by blast
  from t(1) ex_chan have c: "ch = ex_channel" by simp
  from t(2) c have pp: "pre = [] \<and> post = []"
    by (cases pre) (simp_all add: ex_root_def)
  from t(3) w fx c pp have
    "\<exists>root'. docs (snd ?a) FEED_PATH = Some (WellFormed root')
      \<and> tag root' = tag ex_root \<and> attrib root' = attrib ex_root
      \<and> children root'
          = [Element (tag ex_channel) (attrib ex_channel) (etext ex_channel) (etail ex_channel)
               (children ex_channel @ [parsed_back ?new])]
      \<and> entries root' = entries ex_root @ [parsed_back ?new]"
    by auto
  with h1 ex_docs w fx cs t(4,5) show ?thesis by blast
qed

section \<open>Failing writes\<close>

text \<open>
  C6 (amended). For a feed file that parses and has a channel: when the file cannot be
  opened for writing, \<^verbatim>\<open>add_item_to_feed\<close> ends with the \<^verbatim>\<open>PermissionError\<close> of the write
  and the state is unchanged; when writing fails after the file was opened, it ends with
  that \<^verbatim>\<open>OSError\<close> and the file is left truncated, no longer well-formed. It never ends
  with a \<^verbatim>\<open>PersistenceError\<close>. The claim as stated does not hold: the source writes
  straight to the feed path, without a temporary file, and wraps no exception.
\<close>

theorem add_item_to_feed_failure:
  assumes "docs w p = Some (WellFormed root)"
      and "find_child root (py ''channel'') = Some ch"
  shows "(fault w p = OpenFails \<longrightarrow>
            add_item_to_feed w p c f s = (Inl PermissionError, w))
       \<and> (fault w p = WriteFails \<longrightarrow>
            add_item_to_feed w p c f s
              = (Inl OSError, w\<lparr>docs := (docs w)(p \<mapsto> NotWellFormed)\<rparr>))
       \<and> fst (add_item_to_feed w p c f s) \<noteq> Inl PersistenceError"
  using assms
  by (auto simp: add_item_to_feed_def ET_parse_def tree_write_def split: write_fault.splits)

text \<open>
  A write that fails after opening: the well-formed feed is replaced by a truncated file
  and the error is \<^verbatim>\<open>OSError\<close>.
\<close>

theorem add_item_to_feed_truncates:
  "docs write_fails_world FEED_PATH = Some (WellFormed ex_root)
   \<and> fst (add_item_to_feed write_fails_world FEED_PATH ex_new (py ''2024-1002.mp3'') 3)
       = Inl OSError
   \<and> fst (add_item_to_feed write_fails_world FEED_PATH ex_new (py ''2024-1002.mp3'') 3)
       \<noteq> Inl PersistenceError
   \<and> docs (snd (add_item_to_feed write_fails_world FEED_PATH ex_new (py ''2024-1002.mp3'') 3))
        FEED_PATH = Some NotWellFormed
   \<and> docs (snd (add_item_to_feed write_fails_world FEED_PATH ex_new (py ''2024-1002.mp3'') 3))
        FEED_PATH \<noteq> docs write_fails_world FEED_PATH"
proof -
  have d: "docs write_fails_world FEED_PATH = Some (WellFormed ex_root)"
    by (simp add: write_fails_world_def ex_docs)
  have f: "fault write_fails_world FEED_PATH = WriteFails"
    by (simp add: write_fails_world_def)
  have "add_item_to_feed write_fails_world FEED_PATH ex_new (py ''2024-1002.mp3'') 3
          = (Inl OSError,
             write_fails_world\<lparr>docs := (docs write_fails_world)(FEED_PATH \<mapsto> NotWellFormed)\<rparr>)"
    by (simp add: add_item_to_feed_def ET_parse_def d ex_chan tree_write_def f)
  with d show ?thesis by simp
qed

text \<open>
  The same world and candidate.
\<close>

theorem add_item_to_feed_failure_witness:
  "docs write_fails_world FEED_PATH = Some (WellFormed ex_root)
   \<and> find_child ex_root (py ''channel'') = Some ex_channel
   \<and> fault write_fails_world FEED_PATH = WriteFails
   \<and> add_item_to_feed write_fails_world FEED_PATH ex_new (py ''2024-1002.mp3'') 3
       = (Inl OSError,
          write_fails_world\<lparr>docs := (docs write_fails_world)(FEED_PATH \<mapsto> NotWellFormed)\<rparr>)
   \<and> fst (add_item_to_feed write_fails_world FEED_PATH ex_new (py ''2024-1002.mp3'') 3)
       \<noteq> Inl PersistenceError"
proof -
  have d: "docs write_fails_world FEED_PATH = Some (WellFormed ex_root)"
    by (simp add: write_fails_world_def ex_docs)
  have f: "fault write_fails_world FEED_PATH = WriteFails"
    by (simp add: write_fails_world_def)
  from add_item_to_feed_failure[OF d ex_chan, of ex_new "py ''2024-1002.mp3''" 3] d f ex_chan
  show ?thesis by blast
qed

section \<open>What \<^verbatim>\<open>load_existing_guids\<close> returns\<close>

text \<open>
  C7 (amended). For a feed file that parses and has a channel, \<^verbatim>\<open>load_existing_guids\<close>
  returns the set of the guid texts of all \<^verbatim>\<open>item\<close> children of the channel, each
  stripped of leading and trailing whitespace: every item whose first \<^verbatim>\<open>guid\<close> child has
  a non-empty text contributes, and an item without guid child, or whose guid has no text
  or an empty text, contributes nothing and raises nothing. This is the set of the
  entries' identifiers when no identifier has leading or trailing whitespace; an entry
  with the guid \<^verbatim>\<open>" a.mp3"\<close> is returned as \<^verbatim>\<open>"a.mp3"\<close>, and a guid of blanks only is not
  skipped but returned as the empty string. The function only reads: it returns a value
  and no state, and a run of \<^verbatim>\<open>main\<close> that finds every candidate in the set returns with
  the state as it was.
\<close>

theorem load_existing_guids_spec:
  assumes "docs w p = Some (WellFormed root)"
      and "find_child root (py ''channel'') = Some ch"
  shows "load_existing_guids w p =
           Inr {strip t | t item guid_el.
                  item \<in> set (children ch) \<and> tag item = py ''item''
                  \<and> find_child item (py ''guid'') = Some guid_el
                  \<and> etext guid_el = Some t \<and> t \<noteq> []}
       \<and> load_existing_guids w p = Inr (strip ` set (entry_ids root))
       \<and> ((\<forall>g\<in>set (entry_ids root). strip g = g) \<longrightarrow>
            load_existing_guids w p = Inr (set (entry_ids root)))
       \<and> (p = FEED_PATH \<and> new_cases cases (strip ` set (entry_ids root)) = [] \<longrightarrow>
            main w cases = (Inr (), w))"
proof -
  have "strip ` set (entry_ids root) =
          {strip t | t item guid_el.
                  item \<in> set (children ch) \<and> tag item = py ''item''
                  \<and> find_child item (py ''guid'') = Some guid_el
                  \<and> etext guid_el = Some t \<and> t \<noteq> []}"
    using assms(2)
    by (auto simp: entry_ids_def entries_def findall_def map_filter_guid_text_set)
  note l = load_existing_guids_Inr[OF assms]
  from l \<open>strip ` set (entry_ids root) = _\<close> have a:
    "load_existing_guids w p =
           Inr {strip t | t item guid_el.
                  item \<in> set (children ch) \<and> tag item = py ''item''
                  \<and> find_child item (py ''guid'') = Some guid_el
                  \<and> etext guid_el = Some t \<and> t \<noteq> []}"
    by simp
  have b: "load_existing_guids w p = Inr (set (entry_ids root))"
    if "\<forall>g\<in>set (entry_ids root). strip g = g"
  proof -
    from that have "strip ` set (entry_ids root) = set (entry_ids root)" by force
    with l show ?thesis by simp
  qed
  have c: "main w cases = (Inr (), w)"
    if "p = FEED_PATH \<and> new_cases cases (strip ` set (entry_ids root)) = []"
    using that l by (simp add: main_def)
  from a l b c show ?thesis by blast
qed

text \<open>
  The feed with the guids \<^verbatim>\<open>" a.mp3"\<close> and \<^verbatim>\<open>"   "\<close>: the set returned holds \<^verbatim>\<open>"a.mp3"\<close>
  and the empty string, and not the identifier \<^verbatim>\<open>" a.mp3"\<close>.
\<close>

theorem load_existing_guids_strips:
  "docs blank_world FEED_PATH = Some (WellFormed blank_root)
   \<and> entry_ids blank_root = [py '' a.mp3'', py ''   '']
   \<and> load_existing_guids blank_world FEED_PATH = Inr {py ''a.mp3'', []}
   \<and> load_existing_guids blank_world FEED_PATH \<noteq> Inr (set (entry_ids blank_root))
   \<and> py '' a.mp3'' \<notin> {py ''a.mp3'', []}"
proof -
  obtain ch where "find_child blank_root (py ''channel'') = Some ch"
    using blank_chan by auto
  from load_existing_guids_Inr[OF blank_docs this]
  have l: "load_existing_guids blank_world FEED_PATH = Inr {py ''a.mp3'', []}"
    by (simp add: blank_ids strip_ws strip_blank)
  have n: "py '' a.mp3'' \<notin> {py ''a.mp3'', []}" by (simp add: py_def)
  then have "{py ''a.mp3'', []} \<noteq> set (entry_ids blank_root)"
    unfolding blank_ids by auto
  with l n blank_docs blank_ids show ?thesis by simp
qed

text \<open>
  The feed with a guid surrounded by blanks and three entries without identifier, and the
  feed whose one identifier has no surrounding whitespace.
\<close>

theorem load_existing_guids_spec_witness:
  "docs ws_world FEED_PATH = Some (WellFormed ws_root)
   \<and> find_child ws_root (py ''channel'') = Some ws_channel
   \<and> load_existing_guids ws_world FEED_PATH =
           Inr {strip t | t item guid_el.
                  item \<in> set (children ws_channel) \<and> tag item = py ''item''
                  \<and> find_child item (py ''guid'') = Some guid_el
                  \<and> etext guid_el = Some t \<and> t \<noteq> []}
   \<and> load_existing_guids ws_world FEED_PATH = Inr {py ''2024-1002''}
   \<and> docs ex_world FEED_PATH = Some (WellFormed ex_root)
   \<and> find_child ex_root (py ''channel'') = Some ex_channel
   \<and> entry_ids ex_root = [py ''2024-1001'']
   \<and> strip (py ''2024-1001'') = py ''2024-1001''
   \<and> load_existing_guids ex_world FEED_PATH = Inr (set (entry_ids ex_root))
   \<and> new_cases [ex_old] (strip ` set (entry_ids ex_root)) = []
   \<and> main ex_world [ex_old] = (Inr (), ex_world)"
proof -
  have a: "load_existing_guids ws_world FEED_PATH = Inr {py ''2024-1002''}"
    using load_existing_guids_Inr[OF ws_docs ws_chan] by (simp add: ws_ids strip_ws_1002)
  note t = load_existing_guids_spec[OF ws_docs ws_chan, of "[]"]
  note u = load_existing_guids_spec[OF ex_docs ex_chan, of "[ex_old]"]
  have s: "\<forall>g\<in>set (entry_ids ex_root). strip g = g" by (simp add: ex_ids strip_1001)
  have n: "new_cases [ex_old] (strip ` set (entry_ids ex_root)) = []"
    by (simp add: new_cases_def ex_ids strip_1001 ex_old_def)
  from u s have b: "load_existing_guids ex_world FEED_PATH = Inr (set (entry_ids ex_root))"
    by blast
  from u n have c: "main ex_world [ex_old] = (Inr (), ex_world)" by blast
  from t[THEN conjunct1] a b c n ws_docs ws_chan ex_docs ex_chan ex_ids strip_1001
  show ?thesis by blast
qed

section \<open>Failing reads\<close>

text \<open>
  C8 (amended). \<^verbatim>\<open>load_existing_guids\<close> fails exactly when the file is missing
  (\<^verbatim>\<open>FileNotFoundError\<close>), does not parse (\<^verbatim>\<open>ParseError\<close>) or has no channel child
  (\<^verbatim>\<open>AttributeError\<close>); it never fails with a \<^verbatim>\<open>MalformedDocument\<close> error, which the
  source does not have. In \<^verbatim>\<open>main\<close> the failure ends the run with that exception before
  any candidate is processed, with the state unchanged.
\<close>

theorem load_existing_guids_failure:
  "(docs w p = None \<longrightarrow> load_existing_guids w p = Inl FileNotFoundError)
   \<and> (docs w p = Some NotWellFormed \<longrightarrow> load_existing_guids w p = Inl ParseError)
   \<and> (\<forall>root. docs w p = Some (WellFormed root) \<and> find_child root (py ''channel'') = None
         \<longrightarrow> load_existing_guids w p = Inl AttributeError)
   \<and> ((\<exists>e. load_existing_guids w p = Inl e)
        \<longleftrightarrow> \<not> (\<exists>root ch. docs w p = Some (WellFormed root)
                    \<and> find_child root (py ''channel'') = Some ch))
   \<and> load_existing_guids w p \<noteq> Inl MalformedDocument
   \<and> (\<forall>e. load_existing_guids w FEED_PATH = Inl e \<longrightarrow> main w cases = (Inl e, w))"
  by (auto simp: load_existing_guids_def ET_parse_def main_def
           split: option.splits doc.splits)

text \<open>
  A missing feed file: the error is \<^verbatim>\<open>FileNotFoundError\<close>.
\<close>

theorem load_existing_guids_missing_file:
  "docs no_feed_world FEED_PATH = None
   \<and> load_existing_guids no_feed_world FEED_PATH = Inl FileNotFoundError
   \<and> load_existing_guids no_feed_world FEED_PATH \<noteq> Inl MalformedDocument"
  by (simp add: no_feed_world_def load_existing_guids_def ET_parse_def)

text \<open>
  The run on the world without feed file.
\<close>

theorem load_existing_guids_failure_witness:
  "docs no_feed_world FEED_PATH = None
   \<and> load_existing_guids no_feed_world FEED_PATH = Inl FileNotFoundError
   \<and> main no_feed_world [ex_new] = (Inl FileNotFoundError, no_feed_world)"
proof -
  have d: "docs no_feed_world FEED_PATH = None" by (simp add: no_feed_world_def)
  from load_existing_guids_failure[of no_feed_world FEED_PATH "[ex_new]"] d
  show ?thesis by blast
qed

section \<open>An audio file that is already there\<close>




section \<open>Stripped on reading, verbatim on writing\<close>

text \<open>
  C10 (amended). \<^verbatim>\<open>load_existing_guids\<close> returns the stored guid texts stripped of
  leading and trailing whitespace. \<^verbatim>\<open>add_item_to_feed\<close> writes the candidate's identifier
  as the guid text of the new entry without stripping it, so that after the append the
  identifiers of the feed are the former ones followed by the candidate's, as they are
  read back. The dedup step of \<^verbatim>\<open>main\<close> compares the stripped stored texts with the
  candidate's identifier as it is: it drops a candidate exactly when some stored guid
  text, stripped, equals the candidate's identifier. So a stored guid that is the
  candidate's identifier with whitespace around it suppresses the candidate, while a
  candidate whose own identifier has leading or trailing whitespace is never suppressed,
  whatever is stored. The claim as stated, that a stored guid and an identifier that
  differ only in surrounding whitespace always suppress, does not hold.
\<close>

theorem strip_on_load_verbatim_on_write:
  assumes "docs w FEED_PATH = Some (WellFormed root)"
      and "find_child root (py ''channel'') = Some ch"
  shows "load_existing_guids w FEED_PATH = Inr (strip ` set (entry_ids root))
       \<and> guid_text (new_item c f s) = (if docket c = [] then None else Some (docket c))
       \<and> child_text (new_item c f s) (py ''guid'') = Some (docket c)
       \<and> (fault w FEED_PATH = NoFault \<longrightarrow>
            docs (snd (add_item_to_feed w FEED_PATH c f s)) FEED_PATH
              = Some (write_parse (with_item root (new_item c f s)))
            \<and> entry_ids (with_item root (new_item c f s))
                = entry_ids root @ (if docket c = [] then [] else [docket c]))
       \<and> (fault w FEED_PATH = NoFault \<and> well_formed_xml (with_item root (new_item c f s)) \<longrightarrow>
            feed_ids (snd (add_item_to_feed w FEED_PATH c f s))
              = Some (map eol_normalize
                        (entry_ids root @ (if docket c = [] then [] else [docket c]))))
       \<and> (c \<in> set (new_cases cases (strip ` set (entry_ids root)))
            \<longleftrightarrow> c \<in> set cases \<and> \<not> (\<exists>g\<in>set (entry_ids root). strip g = docket c))
       \<and> (\<forall>g\<in>set (entry_ids root). strip g = docket c
            \<longrightarrow> c \<notin> set (new_cases cases (strip ` set (entry_ids root))))
       \<and> (strip (docket c) \<noteq> docket c \<and> c \<in> set cases
            \<longrightarrow> c \<in> set (new_cases cases (strip ` set (entry_ids root))))"
proof -
  let ?t = "with_item root (new_item c f s)"
  have ct: "child_text (new_item c f s) (py ''guid'') = Some (docket c)"
    by (simp add: child_text_def new_item_def find_child_def py_def)
  have iff: "c \<in> set (new_cases cases (strip ` set (entry_ids root)))
            \<longleftrightarrow> c \<in> set cases \<and> \<not> (\<exists>g\<in>set (entry_ids root). strip g = docket c)"
  proof -
    have "docket c \<in> strip ` set (entry_ids root)
            \<longleftrightarrow> (\<exists>g\<in>set (entry_ids root). strip g = docket c)"
      by force
    then show ?thesis by (simp add: new_cases_def)
  qed
  have wr: "docs (snd (add_item_to_feed w FEED_PATH c f s)) FEED_PATH = Some (write_parse ?t)
            \<and> entry_ids ?t = entry_ids root @ (if docket c = [] then [] else [docket c])"
    if "fault w FEED_PATH = NoFault"
    using add_item_to_feed_ok[OF assms that, of c f s] entry_ids_with_item[OF assms(2), of c f s]
    by simp
  have rd: "feed_ids (snd (add_item_to_feed w FEED_PATH c f s))
              = Some (map eol_normalize
                        (entry_ids root @ (if docket c = [] then [] else [docket c])))"
    if "fault w FEED_PATH = NoFault \<and> well_formed_xml ?t"
    using wr that entry_ids_written[OF assms(2), of c f s]
    by (simp add: feed_ids_def feed_of_def write_parse_def)
  have ws: "c \<in> set (new_cases cases (strip ` set (entry_ids root)))"
    if h: "strip (docket c) \<noteq> docket c \<and> c \<in> set cases"
  proof -
    have "docket c \<notin> strip ` set (entry_ids root)"
    proof
      assume "docket c \<in> strip ` set (entry_ids root)"
      then obtain g where "docket c = strip g" by auto
      then have "strip (docket c) = docket c" by (simp add: strip_idem)
      with h show False by simp
    qed
    with h show ?thesis by (simp add: new_cases_def)
  qed
  from load_existing_guids_Inr[OF assms] guid_text_new_item[of c f s] ct wr rd iff ws
  show ?thesis by blast
qed

text \<open>
  The feed holds the guid \<^verbatim>\<open>"a.mp3"\<close> and the candidate has the identifier \<^verbatim>\<open>" a.mp3"\<close>:
  the two differ only in surrounding whitespace, the candidate is not suppressed, and the
  run appends it.
\<close>

theorem candidate_whitespace_not_suppressed:
  "feed_ids plain_world = Some [py ''a.mp3'']
   \<and> load_existing_guids plain_world FEED_PATH = Inr {py ''a.mp3''}
   \<and> strip (docket ws_case) = strip (py ''a.mp3'')
   \<and> new_cases [ws_case] {py ''a.mp3''} = [ws_case]
   \<and> feed_ids (snd (main plain_world [ws_case])) = Some [py ''a.mp3'', py '' a.mp3'']"
proof -
  obtain ch where "find_child plain_root (py ''channel'') = Some ch"
    using plain_chan by auto
  from load_existing_guids_Inr[OF plain_docs this]
  have l: "load_existing_guids plain_world FEED_PATH = Inr {py ''a.mp3''}"
    by (simp add: plain_ids) (simp add: strip_def isspace_def py_def)
  have s: "strip (docket ws_case) = strip (py ''a.mp3'')"
    by (simp add: ws_case_def strip_def isspace_def py_def)
  have n: "new_cases [ws_case] {py ''a.mp3''} = [ws_case]"
    by (simp add: new_cases_def ws_case_def py_def)
  have n': "new_cases [ws_case] (strip ` set [py ''a.mp3'']) = [ws_case]"
    by (simp add: new_cases_def ws_case_def strip_def isspace_def py_def)
  have m: "feed_ids (snd (main plain_world [ws_case])) = Some [py ''a.mp3'', py '' a.mp3'']"
    using main_runnable[OF plain_runnable plain_feed_ids] unfolding n'
    by (simp add: ws_case_def py_def)
  from plain_feed_ids l s n m show ?thesis by simp
qed

text \<open>
  The stored guid \<^verbatim>\<open>"  2024-1002 "\<close> suppresses the candidate \<^verbatim>\<open>2024-1002\<close>; appending
  the candidate all the same writes its identifier next to the stored one.
\<close>

theorem strip_on_load_verbatim_on_write_witness:
  "docs ws_world FEED_PATH = Some (WellFormed ws_root)
   \<and> find_child ws_root (py ''channel'') = Some ws_channel
   \<and> entry_ids ws_root = [py ''  2024-1002 '']
   \<and> strip (py ''  2024-1002 '') = docket ex_new
   \<and> load_existing_guids ws_world FEED_PATH = Inr {py ''2024-1002''}
   \<and> ex_new \<notin> set (new_cases [ex_new] (strip ` set (entry_ids ws_root)))
   \<and> fault ws_world FEED_PATH = NoFault
   \<and> well_formed_xml (with_item ws_root (new_item ex_new (py ''2024-1002.mp3'') 3))
   \<and> feed_ids (snd (add_item_to_feed ws_world FEED_PATH ex_new (py ''2024-1002.mp3'') 3))
       = Some [py ''  2024-1002 '', py ''2024-1002'']
   \<and> strip (docket ws_case) \<noteq> docket ws_case
   \<and> ws_case \<in> set (new_cases [ws_case] (strip ` set (entry_ids ws_root)))"
proof -
  have s: "strip (py ''  2024-1002 '') = docket ex_new"
    by (simp add: strip_ws_1002 ex_new_def)
  note t = strip_on_load_verbatim_on_write[OF ws_docs ws_chan,
             of ex_new "py ''2024-1002.mp3''" 3 "[ex_new]"]
  note u = strip_on_load_verbatim_on_write[OF ws_docs ws_chan,
             of ws_case "py ''2024-1002.mp3''" 3 "[ws_case]"]
  from t have l: "load_existing_guids ws_world FEED_PATH = Inr {py ''2024-1002''}"
    by (simp add: ws_ids strip_ws_1002)
  from t s have n: "ex_new \<notin> set (new_cases [ex_new] (strip ` set (entry_ids ws_root)))"
    by (simp add: ws_ids)
  have f: "fault ws_world FEED_PATH = NoFault"
    by (simp add: ws_world_def ex_world_def)
  have wr: "well_formed_xml ws_root"
    by (simp add: ws_root_def ws_channel_def xml_text_def py_def xml_char_def)
  have w: "well_formed_xml (with_item ws_root (new_item ex_new (py ''2024-1002.mp3'') 3))"
    using ex_case_xml(2)
    by (simp add: well_formed_with_item[OF ws_chan] well_formed_new_item wr case_xml_def)
       (simp add: py_def xml_char_def)
  have e: "map eol_normalize [py ''  2024-1002 '', py ''2024-1002'']
             = [py ''  2024-1002 '', py ''2024-1002'']"
    by (simp add: py_def)
  have d: "docket ex_new = py ''2024-1002''" "py ''2024-1002'' \<noteq> []"
    by (simp_all add: ex_new_def py_def)
  from t f w have a:
    "feed_ids (snd (add_item_to_feed ws_world FEED_PATH ex_new (py ''2024-1002.mp3'') 3))
       = Some (map eol_normalize
                 (entry_ids ws_root @ (if docket ex_new = [] then [] else [docket ex_new])))"
    by blast
  then have a': "feed_ids (snd (add_item_to_feed ws_world FEED_PATH ex_new (py ''2024-1002.mp3'') 3))
       = Some [py ''  2024-1002 '', py ''2024-1002'']"
    unfolding ws_ids d using d(2) e by simp
  have x: "strip (docket ws_case) \<noteq> docket ws_case"
    by (simp add: ws_case_def strip_def isspace_def py_def)
  have "ws_case \<in> set [ws_case]" by simp
  with u x have y: "ws_case \<in> set (new_cases [ws_case] (strip ` set (entry_ids ws_root)))"
    by blast
  from ws_docs ws_chan ws_ids s l n f w a' x y show ?thesis by blast
qed

end
